theory Spec2Isabelle
  imports Main "HOL-Library.Sublist" "HOL-Library.AList" "HOL-Library.Code_Target_Numeral"
begin

section \<open>JavaScript values and strings\<close>

text \<open>
  The task manager is TypeScript that runs in a browser.  Its types are erased at run time
  and the persistence layer casts what \<^verbatim>\<open>JSON.parse\<close> returns without checking it, so the
  model works on JavaScript values.  Strings are Isabelle strings (sequences of 8-bit
  characters, read as Latin-1 code units; text with a character above U+00FF has no exact
  counterpart, see \<open>beyond_latin1\<close> below), numbers are the integers, and an object is the
  list of its own properties in property order.
\<close>

datatype jsv =
    JUndef
  | JNull
  | JBool bool
  | JNum int
  | JStr string
  | JArr "jsv list"
  | JObj "(string \<times> jsv) list"

datatype exn = TypeError | SyntaxError | StorageError | RangeError | InvalidCharacterError

text \<open>White space as \<^verbatim>\<open>String.prototype.trim\<close> and the regular expression \<^verbatim>\<open>\s\<close> see it
  (TAB, LF, VT, FF, CR, SPACE, NBSP are the Latin-1 members of the class).\<close>

definition is_space :: "char \<Rightarrow> bool" where
  "is_space c = (of_char c \<in> {9, 10, 11, 12, 13, 32, 160 :: nat})"

definition trim :: "string \<Rightarrow> string" where
  "trim s = rev (dropWhile is_space (rev (dropWhile is_space s)))"

definition lower_char :: "char \<Rightarrow> char" where
  "lower_char c =
     (let n = (of_char c :: nat)
      in if (65 \<le> n \<and> n \<le> 90) \<or> (192 \<le> n \<and> n \<le> 222 \<and> n \<noteq> 215)
         then char_of (n + 32) else c)"

definition toLowerCase :: "string \<Rightarrow> string" where
  "toLowerCase s = map lower_char s"

text \<open>\<^verbatim>\<open>hay.includes(needle)\<close>: the needle occurs as a contiguous run of the haystack.\<close>

definition str_includes :: "string \<Rightarrow> string \<Rightarrow> bool" where
  "str_includes hay needle = sublist needle hay"

text \<open>\<^verbatim>\<open>s.split(/\s+/)\<close>: the pieces between maximal runs of white space, the empty
  pieces at the ends included.\<close>

fun split_ws :: "string \<Rightarrow> string list" where
  "split_ws [] = [[]]"
| "split_ws (c # cs) =
     (if is_space c
      then (case cs of
              [] \<Rightarrow> [[], []]
            | d # ds \<Rightarrow> if is_space d then split_ws cs else [] # split_ws cs)
      else (case split_ws cs of
              [] \<Rightarrow> [[c]]
            | p # ps \<Rightarrow> (c # p) # ps))"

text \<open>Decimal rendering of an integer, as \<^verbatim>\<open>String(n)\<close> and template literals do.\<close>

definition digit_char :: "nat \<Rightarrow> char" where
  "digit_char d = char_of (48 + d)"

function show_nat :: "nat \<Rightarrow> string" where
  "show_nat n = (if n < 10 then [digit_char n] else show_nat (n div 10) @ [digit_char (n mod 10)])"
  by pat_completeness auto
termination
  by (relation "measure id") auto

declare show_nat.simps [simp del]

definition show_int :: "int \<Rightarrow> string" where
  "show_int i = (if i < 0 then CHR ''-'' # show_nat (nat (- i)) else show_nat (nat i))"

text \<open>\<^verbatim>\<open>String(n).padStart(w, "0")\<close> for a non-negative field.\<close>

definition padStart0 :: "nat \<Rightarrow> string \<Rightarrow> string" where
  "padStart0 w s = replicate (w - length s) CHR ''0'' @ s"

subsection \<open>Dynamic operations\<close>

definition typeof :: "jsv \<Rightarrow> string" where
  "typeof v = (case v of
       JUndef \<Rightarrow> ''undefined''
     | JNull \<Rightarrow> ''object''
     | JBool _ \<Rightarrow> ''boolean''
     | JNum _ \<Rightarrow> ''number''
     | JStr _ \<Rightarrow> ''string''
     | JArr _ \<Rightarrow> ''object''
     | JObj _ \<Rightarrow> ''object'')"

definition truthy :: "jsv \<Rightarrow> bool" where
  "truthy v = (case v of
       JUndef \<Rightarrow> False
     | JNull \<Rightarrow> False
     | JBool b \<Rightarrow> b
     | JNum n \<Rightarrow> n \<noteq> 0
     | JStr s \<Rightarrow> s \<noteq> []
     | JArr _ \<Rightarrow> True
     | JObj _ \<Rightarrow> True)"

text \<open>Reading one of the property names the service uses (\<^verbatim>\<open>id\<close>, \<^verbatim>\<open>title\<close>, \<^verbatim>\<open>data\<close>, ...):
  a \<^verbatim>\<open>TypeError\<close> on \<^verbatim>\<open>null\<close> and \<^verbatim>\<open>undefined\<close>, \<^verbatim>\<open>undefined\<close> on a primitive, an array or an
  object without the property.\<close>

definition get_prop :: "jsv \<Rightarrow> string \<Rightarrow> exn + jsv" where
  "get_prop v k = (case v of
       JUndef \<Rightarrow> Inl TypeError
     | JNull \<Rightarrow> Inl TypeError
     | JObj kvs \<Rightarrow> Inr (case map_of kvs k of None \<Rightarrow> JUndef | Some x \<Rightarrow> x)
     | _ \<Rightarrow> Inr JUndef)"

text \<open>Strict equality \<^verbatim>\<open>===\<close>.  Arrays and objects compare by reference; the values compared
  by the service come from different allocations, so two of them are never identical.\<close>

definition strict_eq :: "jsv \<Rightarrow> jsv \<Rightarrow> bool" where
  "strict_eq a b = (case a of
       JArr _ \<Rightarrow> False
     | JObj _ \<Rightarrow> False
     | _ \<Rightarrow> a = b)"

subsection \<open>\<^verbatim>\<open>JSON.stringify\<close>\<close>

definition hex_char :: "nat \<Rightarrow> char" where
  "hex_char d = (if d < 10 then char_of (48 + d) else char_of (87 + d))"

definition quote_char :: "char \<Rightarrow> string" where
  "quote_char c =
     (let n = (of_char c :: nat)
      in if c = CHR 0x22 then [CHR 0x5C, CHR 0x22]
         else if c = CHR 0x5C then [CHR 0x5C, CHR 0x5C]
         else if n = 8 then [CHR 0x5C, CHR ''b'']
         else if n = 12 then [CHR 0x5C, CHR ''f'']
         else if n = 10 then [CHR 0x5C, CHR ''n'']
         else if n = 13 then [CHR 0x5C, CHR ''r'']
         else if n = 9 then [CHR 0x5C, CHR ''t'']
         else if n < 32 then [CHR 0x5C, CHR ''u'', CHR ''0'', CHR ''0'', hex_char (n div 16), hex_char (n mod 16)]
         else [c])"

definition quote :: "string \<Rightarrow> string" where
  "quote s = CHR 0x22 # concat (map quote_char s) @ [CHR 0x22]"

fun intercalate :: "string \<Rightarrow> string list \<Rightarrow> string" where
  "intercalate sep [] = []"
| "intercalate sep [x] = x"
| "intercalate sep (x # y # ys) = x @ sep @ intercalate sep (y # ys)"

text \<open>The text of a value inside a document: \<^verbatim>\<open>undefined\<close> is \<^verbatim>\<open>null\<close> in an array and its
  property is left out of an object.\<close>

fun ser :: "jsv \<Rightarrow> string" where
  "ser JUndef = ''null''"
| "ser JNull = ''null''"
| "ser (JBool b) = (if b then ''true'' else ''false'')"
| "ser (JNum n) = show_int n"
| "ser (JStr s) = quote s"
| "ser (JArr xs) = ''['' @ intercalate '','' (map ser xs) @ '']''"
| "ser (JObj kvs) =
     ''{'' @ intercalate '','' (map (\<lambda>kv. quote (fst kv) @ '':'' @ ser (snd kv))
                                (filter (\<lambda>kv. snd kv \<noteq> JUndef) kvs)) @ ''}''"

definition JSON_stringify :: "jsv \<Rightarrow> string option" where
  "JSON_stringify v = (if v = JUndef then None else Some (ser v))"

section \<open>The memoize utility (lib/performance)\<close>

text \<open>
  \<^verbatim>\<open>memoize(fn, options)\<close> keeps a \<^verbatim>\<open>Map\<close> from key to \<^verbatim>\<open>{value, timestamp}\<close>.  The map is the
  list of its entries in insertion order.  The wrapped function may read and change a state
  of its own and may throw; the clock reading \<^verbatim>\<open>Date.now()\<close> of the call is \<open>now\<close>.
\<close>

record memo_options =
  maxSize :: "int option"
  ttl :: "int option"
  keyGenerator :: "(jsv list \<Rightarrow> string) option"

type_synonym 'r memo_cache = "(string \<times> 'r \<times> int) list"

definition maxSize_of :: "memo_options \<Rightarrow> int" where
  "maxSize_of opts = (case maxSize opts of None \<Rightarrow> 100 | Some n \<Rightarrow> n)"

definition ttl_of :: "memo_options \<Rightarrow> int" where
  "ttl_of opts = (case ttl opts of None \<Rightarrow> 5 * 60 * 1000 | Some n \<Rightarrow> n)"

definition keyGenerator_of :: "memo_options \<Rightarrow> jsv list \<Rightarrow> string" where
  "keyGenerator_of opts args =
     (case keyGenerator opts of None \<Rightarrow> ser (JArr args) | Some g \<Rightarrow> g args)"

text \<open>The clean-up step: sort the entries by timestamp (the sort is stable) and delete the
  keys of the first \<^verbatim>\<open>Math.floor(entries.length * 0.25)\<close> of them.\<close>

definition evict_oldest :: "'r memo_cache \<Rightarrow> 'r memo_cache" where
  "evict_oldest c =
     (let entries = sort_key (\<lambda>e. snd (snd e)) c;
          toRemove = length entries div 4
      in foldl (\<lambda>m k. AList.delete k m) c (map fst (take toRemove entries)))"

definition memoized ::
  "memo_options \<Rightarrow> (jsv list \<Rightarrow> 's \<Rightarrow> ('e + 'r) \<times> 's) \<Rightarrow> jsv list \<Rightarrow> int \<Rightarrow>
     'r memo_cache \<Rightarrow> 's \<Rightarrow> ('e + 'r) \<times> 'r memo_cache \<times> 's" where
  "memoized opts fn args now c s =
     (let key = keyGenerator_of opts args
      in case map_of c key of
           Some (v, ts) \<Rightarrow>
             if ttl_of opts = 0 \<or> now - ts < ttl_of opts then (Inr v, c, s)
             else (case fn args s of
                     (Inl e, s') \<Rightarrow> (Inl e, c, s')
                   | (Inr result, s') \<Rightarrow>
                       (Inr result,
                        AList.update key (result, now)
                          (if maxSize_of opts \<le> int (length c) then evict_oldest c else c), s'))
         | None \<Rightarrow>
             (case fn args s of
                (Inl e, s') \<Rightarrow> (Inl e, c, s')
              | (Inr result, s') \<Rightarrow>
                  (Inr result,
                   AList.update key (result, now)
                     (if maxSize_of opts \<le> int (length c) then evict_oldest c else c), s')))"

text \<open>The cache after a run of calls, each with its arguments and clock reading.\<close>

fun memo_run ::
  "memo_options \<Rightarrow> (jsv list \<Rightarrow> 's \<Rightarrow> ('e + 'r) \<times> 's) \<Rightarrow> (jsv list \<times> int) list \<Rightarrow>
     'r memo_cache \<Rightarrow> 's \<Rightarrow> 'r memo_cache \<times> 's" where
  "memo_run opts fn [] c s = (c, s)"
| "memo_run opts fn ((args, now) # calls) c s =
     (case memoized opts fn args now c s of (_, c', s') \<Rightarrow> memo_run opts fn calls c' s')"

text \<open>A wrapped function for the examples: it returns its first argument and has no state.\<close>

definition first_arg :: "jsv list \<Rightarrow> unit \<Rightarrow> (exn + jsv) \<times> unit" where
  "first_arg args u = (Inr (case args of [] \<Rightarrow> JUndef | a # _ \<Rightarrow> a), u)"

section \<open>The platform\<close>

text \<open>
  What the browser provides and the repository does not define: whether \<^verbatim>\<open>window\<close> exists,
  whether \<^verbatim>\<open>localStorage\<close> can be reached and which writes it refuses, \<^verbatim>\<open>JSON.parse\<close>
  (\<open>None\<close> is a \<^verbatim>\<open>SyntaxError\<close>), the local time zone (the offset in milliseconds at a UTC
  instant), the parsing of date strings other than the format of \<^verbatim>\<open>toISOString\<close>, the
  conversion of a string to a number (\<open>None\<close> is \<^verbatim>\<open>NaN\<close>), and the texts that \<^verbatim>\<open>btoa\<close>
  refuses.  A JavaScript string may hold characters above U+00FF, which the 8-bit strings of
  this model do not have; \<^verbatim>\<open>btoa\<close> is the one built-in the service calls that throws on
  them, so which of the texts handed to it hold such a character is given with the platform.
\<close>

record platform =
  has_window :: bool
  storage_available :: bool
  quota_exceeded :: "string \<Rightarrow> string \<Rightarrow> bool"
  JSON_parse :: "string \<Rightarrow> jsv option"
  tza :: "int \<Rightarrow> int"
  Date_parse_other :: "string \<Rightarrow> int option"
  StringToNumber :: "string \<Rightarrow> int option"
  beyond_latin1 :: "string \<Rightarrow> bool"

text \<open>\<^verbatim>\<open>String(v)\<close>, as a template literal applies it.\<close>

fun to_string :: "jsv \<Rightarrow> string" where
  "to_string JUndef = ''undefined''"
| "to_string JNull = ''null''"
| "to_string (JBool b) = (if b then ''true'' else ''false'')"
| "to_string (JNum n) = show_int n"
| "to_string (JStr s) = s"
| "to_string (JArr xs) =
     intercalate '','' (map (\<lambda>x. if x = JUndef \<or> x = JNull then [] else to_string x) xs)"
| "to_string (JObj kvs) = ''[object Object]''"

definition to_number :: "platform \<Rightarrow> jsv \<Rightarrow> int option" where
  "to_number P v = (case v of
       JUndef \<Rightarrow> None
     | JNull \<Rightarrow> Some 0
     | JBool b \<Rightarrow> Some (if b then 1 else 0)
     | JNum n \<Rightarrow> Some n
     | JStr s \<Rightarrow> StringToNumber P s
     | _ \<Rightarrow> StringToNumber P (to_string v))"

section \<open>Dates (lib/dateUtils)\<close>

text \<open>
  A \<^verbatim>\<open>Date\<close> is its time value, the milliseconds since the epoch, or \<open>None\<close> for an invalid
  date.  The calendar follows ECMAScript: days are counted from 1 January 1970, which was a
  Thursday, in the proleptic Gregorian calendar.
\<close>

definition msPerDay :: int where
  "msPerDay = 86400000"

definition Day :: "int \<Rightarrow> int" where
  "Day t = t div msPerDay"

definition TimeWithinDay :: "int \<Rightarrow> int" where
  "TimeWithinDay t = t mod msPerDay"

definition isLeap :: "int \<Rightarrow> bool" where
  "isLeap y = (y mod 4 = 0 \<and> (y mod 100 \<noteq> 0 \<or> y mod 400 = 0))"

definition DaysInYear :: "int \<Rightarrow> int" where
  "DaysInYear y = (if isLeap y then 366 else 365)"

definition DayFromYear :: "int \<Rightarrow> int" where
  "DayFromYear y =
     365 * (y - 1970) + (y - 1969) div 4 - (y - 1901) div 100 + (y - 1601) div 400"

text \<open>The year that holds day \<open>d\<close> counted from the start of year \<open>y\<close>, and the day within
  that year.\<close>

function year_of_day :: "int \<Rightarrow> int \<Rightarrow> int \<times> int" where
  "year_of_day y d =
     (if d < 0 then year_of_day (y - 1) (d + DaysInYear (y - 1))
      else if DaysInYear y \<le> d then year_of_day (y + 1) (d - DaysInYear y)
      else (y, d))"
  by pat_completeness auto
termination
  by (relation "measure (\<lambda>(y, d). if d < 0 then nat (- d) + 366 else nat d)")
     (auto simp: DaysInYear_def split: if_splits)

declare year_of_day.simps [simp del]

definition month_lengths :: "int \<Rightarrow> nat list" where
  "month_lengths y = [31, if isLeap y then 29 else 28, 31, 30, 31, 30, 31, 31, 30, 31, 30, 31]"

fun month_of_day :: "nat list \<Rightarrow> nat \<Rightarrow> nat \<times> nat" where
  "month_of_day [] d = (0, d)"
| "month_of_day (l # ls) d =
     (if d < l then (0, d) else (case month_of_day ls (d - l) of (m, r) \<Rightarrow> (Suc m, r)))"

text \<open>Year, month (from 0) and day of the month (from 1) of a time value.\<close>

definition civil :: "int \<Rightarrow> int \<times> nat \<times> nat" where
  "civil t =
     (case year_of_day 1970 (Day t) of
        (y, doy) \<Rightarrow> (case month_of_day (month_lengths y) (nat doy) of
                       (m, r) \<Rightarrow> (y, m, r + 1)))"

definition MakeDay :: "int \<Rightarrow> nat \<Rightarrow> nat \<Rightarrow> int" where
  "MakeDay y m d = DayFromYear y + int (sum_list (take m (month_lengths y))) + int d - 1"

definition WeekDay :: "int \<Rightarrow> nat" where
  "WeekDay t = nat ((Day t + 4) mod 7)"

definition LocalTime :: "platform \<Rightarrow> int \<Rightarrow> int" where
  "LocalTime P t = t + tza P t"

definition TimeClip :: "int \<Rightarrow> int option" where
  "TimeClip t = (if \<bar>t\<bar> \<le> 8640000000000000 then Some t else None)"

text \<open>\<^verbatim>\<open>Date.prototype.toISOString\<close> of a valid time value: UTC fields, a four-digit year
  from 0 to 9999 and a signed six-digit year otherwise.\<close>

definition iso_year :: "int \<Rightarrow> string" where
  "iso_year y =
     (if 0 \<le> y \<and> y \<le> 9999 then padStart0 4 (show_nat (nat y))
      else (if y < 0 then CHR ''-'' else CHR ''+'') # padStart0 6 (show_nat (nat \<bar>y\<bar>)))"

definition toISOString :: "int \<Rightarrow> string" where
  "toISOString t =
     (case civil t of
        (y, m, d) \<Rightarrow>
          (let w = nat (TimeWithinDay t)
           in iso_year y @ ''-'' @ padStart0 2 (show_nat (m + 1)) @ ''-'' @
              padStart0 2 (show_nat d) @ ''T'' @
              padStart0 2 (show_nat (w div 3600000)) @ '':'' @
              padStart0 2 (show_nat (w div 60000 mod 60)) @ '':'' @
              padStart0 2 (show_nat (w div 1000 mod 60)) @ ''.'' @
              padStart0 3 (show_nat (w mod 1000)) @ ''Z''))"

text \<open>Reading a string in the format of \<^verbatim>\<open>toISOString\<close> with a four-digit year and every
  field in range; any other string is left to the platform.\<close>

definition digit_val :: "char \<Rightarrow> nat option" where
  "digit_val c =
     (let n = (of_char c :: nat) in if 48 \<le> n \<and> n \<le> 57 then Some (n - 48) else None)"

fun digits_val :: "nat \<Rightarrow> string \<Rightarrow> nat option" where
  "digits_val acc [] = Some acc"
| "digits_val acc (c # cs) =
     (case digit_val c of None \<Rightarrow> None | Some d \<Rightarrow> digits_val (10 * acc + d) cs)"

definition field_val :: "string \<Rightarrow> nat \<Rightarrow> nat \<Rightarrow> nat option" where
  "field_val s i n = digits_val 0 (take n (drop i s))"

definition parse_iso :: "string \<Rightarrow> int option" where
  "parse_iso s =
     (if length s = 24 \<and> s ! 4 = CHR ''-'' \<and> s ! 7 = CHR ''-'' \<and> s ! 10 = CHR ''T'' \<and>
         s ! 13 = CHR '':'' \<and> s ! 16 = CHR '':'' \<and> s ! 19 = CHR ''.'' \<and> s ! 23 = CHR ''Z''
      then (case (field_val s 0 4, field_val s 5 2, field_val s 8 2, field_val s 11 2,
                  field_val s 14 2, field_val s 17 2, field_val s 20 3) of
              (Some y, Some mo, Some d, Some h, Some mi, Some sec, Some ms) \<Rightarrow>
                if 1 \<le> mo \<and> mo \<le> 12 \<and> 1 \<le> d \<and> d \<le> month_lengths (int y) ! (mo - 1) \<and>
                   h < 24 \<and> mi < 60 \<and> sec < 60
                then Some (MakeDay (int y) (mo - 1) d * msPerDay +
                           int (h * 3600000 + mi * 60000 + sec * 1000 + ms))
                else None
            | _ \<Rightarrow> None)
      else None)"

definition Date_parse :: "platform \<Rightarrow> string \<Rightarrow> int option" where
  "Date_parse P s = (case parse_iso s of Some t \<Rightarrow> Some t | None \<Rightarrow> Date_parse_other P s)"

text \<open>The functions of \<^verbatim>\<open>dateUtils\<close> take \<^verbatim>\<open>string | Date\<close> and start with \<^verbatim>\<open>new Date(date)\<close>.\<close>

datatype date_arg = ADate "int option" | AVal jsv

definition new_Date :: "platform \<Rightarrow> date_arg \<Rightarrow> int option" where
  "new_Date P a = (case a of
       ADate d \<Rightarrow> d
     | AVal v \<Rightarrow> (case v of
           JUndef \<Rightarrow> None
         | JNull \<Rightarrow> Some 0
         | JBool b \<Rightarrow> Some (if b then 1 else 0)
         | JNum n \<Rightarrow> TimeClip n
         | JStr s \<Rightarrow> Date_parse P s
         | _ \<Rightarrow> Date_parse P (to_string v)))"

definition formatDateForSearch :: "platform \<Rightarrow> date_arg \<Rightarrow> string" where
  "formatDateForSearch P date =
     (case new_Date P date of
        None \<Rightarrow> ''NaN-NaN-NaN''
      | Some t \<Rightarrow> (case civil (LocalTime P t) of
                    (year, m, day) \<Rightarrow>
                      show_int year @ ''-'' @ padStart0 2 (show_nat (m + 1)) @ ''-'' @
                      padStart0 2 (show_nat day)))"

definition day_names :: "string list" where
  "day_names = [''Sunday'', ''Monday'', ''Tuesday'', ''Wednesday'', ''Thursday'', ''Friday'',
                ''Saturday'']"

definition getDayName :: "platform \<Rightarrow> date_arg \<Rightarrow> string" where
  "getDayName P date =
     (case new_Date P date of
        None \<Rightarrow> ''Invalid Date''
      | Some t \<Rightarrow> day_names ! WeekDay (LocalTime P t))"

definition matchesDateSearch :: "platform \<Rightarrow> date_arg \<Rightarrow> string \<Rightarrow> bool" where
  "matchesDateSearch P date searchQuery = str_includes (formatDateForSearch P date) searchQuery"

section \<open>The persistence service (lib/localStorage)\<close>

text \<open>
  The service is one object with mutable fields.  The arrays of tasks it hands around are
  shared and changed in place (\<^verbatim>\<open>tasks[taskIndex] = updatedTask\<close>, \<^verbatim>\<open>tasks.splice\<close>), so
  they live in a heap and the fields hold references.  Task objects are never changed after
  they are built and are plain values.  An operation reads the clock once: \<open>now\<close> is its
  \<^verbatim>\<open>Date.now()\<close>.  The performance monitor only records timings and is left out.
\<close>

definition TASKS_KEY :: string where
  "TASKS_KEY = ''task-manager-tasks''"

definition CACHE_KEY :: string where
  "CACHE_KEY = ''task-manager-cache''"

definition CACHE_EXPIRY :: int where
  "CACHE_EXPIRY = 10 * 60 * 1000"

record service =
  heap :: "nat \<Rightarrow> jsv list"
  fresh :: nat
  cache :: "nat option"
  cacheTimestamp :: jsv
  searchCache :: "string \<Rightarrow> (nat \<times> int) option"
  getTasks_memo :: "nat memo_cache"
  localStorage :: "string \<Rightarrow> string option"

definition alloc :: "jsv list \<Rightarrow> service \<Rightarrow> nat \<times> service" where
  "alloc xs s = (fresh s, s\<lparr>heap := (heap s)(fresh s := xs), fresh := Suc (fresh s)\<rparr>)"

definition getItem :: "platform \<Rightarrow> service \<Rightarrow> string \<Rightarrow> exn + string option" where
  "getItem P s k = (if storage_available P then Inr (localStorage s k) else Inl StorageError)"

definition setItem :: "platform \<Rightarrow> string \<Rightarrow> string \<Rightarrow> service \<Rightarrow> exn + service" where
  "setItem P k v s =
     (if storage_available P \<and> \<not> quota_exceeded P k v
      then Inr (s\<lparr>localStorage := (localStorage s)(k \<mapsto> v)\<rparr>)
      else Inl StorageError)"

definition removeItem :: "platform \<Rightarrow> string \<Rightarrow> service \<Rightarrow> exn + service" where
  "removeItem P k s =
     (if storage_available P then Inr (s\<lparr>localStorage := (localStorage s)(k := None)\<rparr>)
      else Inl StorageError)"

subsection \<open>The checksum\<close>

definition b64_char :: "nat \<Rightarrow> char" where
  "b64_char n =
     (if n < 26 then char_of (65 + n)
      else if n < 52 then char_of (71 + n)
      else if n < 62 then char_of (n - 4)
      else if n = 62 then CHR ''+'' else CHR ''/'')"

fun btoa_bytes :: "nat list \<Rightarrow> string" where
  "btoa_bytes [] = []"
| "btoa_bytes [a] = [b64_char (a div 4), b64_char (a mod 4 * 16), CHR ''='', CHR ''='']"
| "btoa_bytes [a, b] =
     [b64_char (a div 4), b64_char (a mod 4 * 16 + b div 16), b64_char (b mod 16 * 4), CHR ''='']"
| "btoa_bytes (a # b # c # r) =
     [b64_char (a div 4), b64_char (a mod 4 * 16 + b div 16),
      b64_char (b mod 16 * 4 + c div 64), b64_char (c mod 64)] @ btoa_bytes r"

text \<open>\<^verbatim>\<open>btoa(text)\<close>: an \<^verbatim>\<open>InvalidCharacterError\<close> when the text holds a character above
  U+00FF, the base-64 rendering of its characters read as bytes otherwise.\<close>

definition btoa :: "platform \<Rightarrow> string \<Rightarrow> exn + string" where
  "btoa P text =
     (if beyond_latin1 P text then Inl InvalidCharacterError
      else Inr (btoa_bytes (map of_char text)))"

fun map_exn :: "('a \<Rightarrow> exn + 'b) \<Rightarrow> 'a list \<Rightarrow> exn + 'b list" where
  "map_exn f [] = Inr []"
| "map_exn f (x # xs) =
     (case f x of
        Inl e \<Rightarrow> Inl e
      | Inr y \<Rightarrow> (case map_exn f xs of Inl e \<Rightarrow> Inl e | Inr ys \<Rightarrow> Inr (y # ys)))"

definition id_updatedAt :: "jsv \<Rightarrow> exn + jsv" where
  "id_updatedAt t =
     (case get_prop t ''id'' of
        Inl e \<Rightarrow> Inl e
      | Inr i \<Rightarrow> (case get_prop t ''updatedAt'' of
                   Inl e \<Rightarrow> Inl e
                 | Inr u \<Rightarrow> Inr (JObj [(''id'', i), (''updatedAt'', u)])))"

definition generateChecksum :: "platform \<Rightarrow> jsv \<Rightarrow> exn + string" where
  "generateChecksum P data =
     (case data of
        JArr xs \<Rightarrow> (case map_exn id_updatedAt xs of
                     Inl e \<Rightarrow> Inl e
                   | Inr ys \<Rightarrow> btoa P (ser (JArr ys)))
      | _ \<Rightarrow> Inl TypeError)"

subsection \<open>Reading\<close>

definition within_expiry :: "platform \<Rightarrow> int \<Rightarrow> jsv \<Rightarrow> bool" where
  "within_expiry P now ts =
     (case to_number P ts of None \<Rightarrow> False | Some n \<Rightarrow> now - n < CACHE_EXPIRY)"

definition has_type :: "jsv \<Rightarrow> string \<Rightarrow> string \<Rightarrow> bool" where
  "has_type task k ty = (case get_prop task k of Inl _ \<Rightarrow> False | Inr v \<Rightarrow> typeof v = ty)"

definition valid_shape :: "jsv \<Rightarrow> bool" where
  "valid_shape task =
     (truthy task \<and> has_type task ''id'' ''string'' \<and> has_type task ''title'' ''string'' \<and>
      has_type task ''isCompleted'' ''boolean'' \<and> has_type task ''createdAt'' ''string'' \<and>
      has_type task ''updatedAt'' ''string'')"

text \<open>\<^verbatim>\<open>v.trim()\<close> and \<^verbatim>\<open>v?.trim() || ""\<close>.\<close>

definition call_trim :: "jsv \<Rightarrow> exn + string" where
  "call_trim v = (case v of JStr x \<Rightarrow> Inr (trim x) | _ \<Rightarrow> Inl TypeError)"

definition opt_trim :: "jsv \<Rightarrow> exn + string" where
  "opt_trim v = (case v of JUndef \<Rightarrow> Inr [] | JNull \<Rightarrow> Inr [] | _ \<Rightarrow> call_trim v)"

text \<open>The own properties an object spread copies.  Every value the service spreads has
  passed a test for a string \<^verbatim>\<open>id\<close> property, so it is an object.\<close>

definition spread :: "jsv \<Rightarrow> (string \<times> jsv) list" where
  "spread v = (case v of JObj kvs \<Rightarrow> kvs | _ \<Rightarrow> [])"

definition clean_task :: "jsv \<Rightarrow> exn + jsv" where
  "clean_task task =
     (case get_prop task ''title'' of Inl e \<Rightarrow> Inl e | Inr t \<Rightarrow>
      case call_trim t of Inl e \<Rightarrow> Inl e | Inr title' \<Rightarrow>
      case get_prop task ''description'' of Inl e \<Rightarrow> Inl e | Inr d \<Rightarrow>
      case opt_trim d of Inl e \<Rightarrow> Inl e | Inr description' \<Rightarrow>
      case get_prop task ''name'' of Inl e \<Rightarrow> Inl e | Inr n \<Rightarrow>
      case opt_trim n of Inl e \<Rightarrow> Inl e | Inr name' \<Rightarrow>
      case get_prop task ''role'' of Inl e \<Rightarrow> Inl e | Inr r \<Rightarrow>
      case opt_trim r of Inl e \<Rightarrow> Inl e | Inr role' \<Rightarrow>
        Inr (JObj (AList.update ''role'' (JStr role')
                  (AList.update ''name'' (JStr name')
                  (AList.update ''description'' (JStr description')
                  (AList.update ''title'' (JStr title') (spread task)))))))"

definition validateAndCleanTasks :: "jsv \<Rightarrow> exn + jsv list" where
  "validateAndCleanTasks tasks =
     (case tasks of
        JArr xs \<Rightarrow> map_exn clean_task (filter valid_shape xs)
      | _ \<Rightarrow> Inl TypeError)"

definition updateCache :: "platform \<Rightarrow> int \<Rightarrow> nat \<Rightarrow> service \<Rightarrow> (exn + unit) \<times> service" where
  "updateCache P now tasks s =
     (let s1 = s\<lparr>cache := Some tasks, cacheTimestamp := JNum now\<rparr>
      in case generateChecksum P (JArr (heap s1 tasks)) of
           Inl e \<Rightarrow> (Inl e, s1)
         | Inr checksum \<Rightarrow>
             (Inr (),
              case setItem P CACHE_KEY
                     (ser (JObj [(''data'', JArr (heap s1 tasks)), (''timestamp'', JNum now),
                                 (''checksum'', JStr checksum)])) s1 of
                Inl _ \<Rightarrow> s1
              | Inr s2 \<Rightarrow> s2))"

text \<open>The inner \<^verbatim>\<open>try\<close> of \<^verbatim>\<open>getTasks\<close>: \<open>Inl\<close> is an exception on its way to the inner
  \<^verbatim>\<open>catch\<close>, \<open>Inr None\<close> a cache that is stale or fails its checksum, \<open>Inr (Some _)\<close> the
  adopted array.\<close>

definition adopt_secondary ::
  "platform \<Rightarrow> int \<Rightarrow> string \<Rightarrow> service \<Rightarrow> exn + (nat \<times> service) option" where
  "adopt_secondary P now cachedData s =
     (case JSON_parse P cachedData of None \<Rightarrow> Inl SyntaxError | Some c \<Rightarrow>
      case get_prop c ''timestamp'' of Inl e \<Rightarrow> Inl e | Inr ts \<Rightarrow>
        if within_expiry P now ts
        then (case get_prop c ''data'' of Inl e \<Rightarrow> Inl e | Inr data \<Rightarrow>
              case generateChecksum P data of Inl e \<Rightarrow> Inl e | Inr currentChecksum \<Rightarrow>
              case get_prop c ''checksum'' of Inl e \<Rightarrow> Inl e | Inr checksum \<Rightarrow>
                if strict_eq (JStr currentChecksum) checksum
                then (case alloc (case data of JArr xs \<Rightarrow> xs | _ \<Rightarrow> []) s of
                        (r, s1) \<Rightarrow> Inr (Some (r, s1\<lparr>cache := Some r, cacheTimestamp := ts\<rparr>)))
                else Inr None)
        else Inr None)"

text \<open>\<^verbatim>\<open>tasks ? JSON.parse(tasks) : []\<close>.\<close>

definition parse_stored :: "platform \<Rightarrow> string option \<Rightarrow> exn + jsv" where
  "parse_stored P tasks =
     (case tasks of
        None \<Rightarrow> Inr (JArr [])
      | Some t \<Rightarrow> if t = [] then Inr (JArr [])
                  else (case JSON_parse P t of None \<Rightarrow> Inl SyntaxError | Some v \<Rightarrow> Inr v))"

definition read_primary :: "platform \<Rightarrow> int \<Rightarrow> service \<Rightarrow> (exn + nat) \<times> service" where
  "read_primary P now s =
     (case getItem P s TASKS_KEY of Inl e \<Rightarrow> (Inl e, s) | Inr tasks \<Rightarrow>
      case parse_stored P tasks of Inl e \<Rightarrow> (Inl e, s) | Inr parsedTasks \<Rightarrow>
      case validateAndCleanTasks parsedTasks of Inl e \<Rightarrow> (Inl e, s) | Inr validTasks \<Rightarrow>
      case alloc validTasks s of (r, s1) \<Rightarrow>
      case updateCache P now r s1 of
        (Inl e, s2) \<Rightarrow> (Inl e, s2)
      | (Inr _, s2) \<Rightarrow> (Inr r, s2))"

definition getTasks_try :: "platform \<Rightarrow> int \<Rightarrow> service \<Rightarrow> (exn + nat) \<times> service" where
  "getTasks_try P now s =
     (case (case cache s of
              None \<Rightarrow> None
            | Some r \<Rightarrow> if within_expiry P now (cacheTimestamp s) then Some r else None) of
        Some r \<Rightarrow> (Inr r, s)
      | None \<Rightarrow>
      case getItem P s CACHE_KEY of Inl e \<Rightarrow> (Inl e, s) | Inr cachedData \<Rightarrow>
      case cachedData of
        None \<Rightarrow> read_primary P now s
      | Some cd \<Rightarrow>
          if cd = [] then read_primary P now s
          else (case adopt_secondary P now cd s of
                  Inr (Some (r, s1)) \<Rightarrow> (Inr r, s1)
                | Inr None \<Rightarrow> read_primary P now s
                | Inl _ \<Rightarrow> (case removeItem P CACHE_KEY s of
                              Inl e \<Rightarrow> (Inl e, s)
                            | Inr s1 \<Rightarrow> read_primary P now s1)))"

text \<open>The function given to \<^verbatim>\<open>memoize\<close>: the outer \<^verbatim>\<open>catch\<close> answers every exception with a
  new empty array.\<close>

definition getTasks_body :: "platform \<Rightarrow> int \<Rightarrow> service \<Rightarrow> nat \<times> service" where
  "getTasks_body P now s =
     (if \<not> has_window P then alloc [] s
      else case getTasks_try P now s of
             (Inr r, s1) \<Rightarrow> (r, s1)
           | (Inl _, s1) \<Rightarrow> alloc [] s1)"

definition getTasks_options :: memo_options where
  "getTasks_options = \<lparr>maxSize = Some 1, ttl = Some CACHE_EXPIRY, keyGenerator = None\<rparr>"

definition getTasks :: "platform \<Rightarrow> int \<Rightarrow> service \<Rightarrow> (exn + nat) \<times> service" where
  "getTasks P now s =
     (case memoized getTasks_options
             (\<lambda>args st. case getTasks_body P now st of (r, st1) \<Rightarrow> (Inr r, st1))
             [] now (getTasks_memo s) s of
        (res, c, s1) \<Rightarrow> (res, s1\<lparr>getTasks_memo := c\<rparr>))"

subsection \<open>Writing\<close>

definition saveTasksImmediate :: "platform \<Rightarrow> int \<Rightarrow> nat \<Rightarrow> service \<Rightarrow> service" where
  "saveTasksImmediate P now tasks s =
     (if \<not> has_window P then s
      else case setItem P TASKS_KEY (ser (JArr (heap s tasks))) s of
             Inl _ \<Rightarrow> s
           | Inr s1 \<Rightarrow> (case updateCache P now tasks s1 of
                         (Inl _, s2) \<Rightarrow> s2
                       | (Inr _, s2) \<Rightarrow> s2\<lparr>searchCache := Map.empty\<rparr>))"

record TaskFormData =
  title :: string
  description :: "string option"
  name :: "string option"
  role :: "string option"

definition trim_or_empty :: "string option \<Rightarrow> string" where
  "trim_or_empty v = (case v of None \<Rightarrow> [] | Some x \<Rightarrow> trim x)"

text \<open>\<open>rnd\<close> is \<^verbatim>\<open>Math.random().toString(36).substr(2, 9)\<close>.\<close>

definition newTask :: "platform \<Rightarrow> int \<Rightarrow> string \<Rightarrow> TaskFormData \<Rightarrow> jsv" where
  "newTask P now rnd taskData =
     JObj [(''id'', JStr (show_int now @ ''-'' @ rnd)),
           (''title'', JStr (trim (title taskData))),
           (''description'', JStr (trim_or_empty (description taskData))),
           (''name'', JStr (trim_or_empty (name taskData))),
           (''role'', JStr (trim_or_empty (role taskData))),
           (''isCompleted'', JBool False),
           (''createdAt'', JStr (toISOString now)),
           (''updatedAt'', JStr (toISOString now)),
           (''dateAdded'', JStr (formatDateForSearch P (ADate (Some now)))),
           (''dayAdded'', JStr (getDayName P (ADate (Some now))))]"

definition addTask ::
  "platform \<Rightarrow> int \<Rightarrow> string \<Rightarrow> TaskFormData \<Rightarrow> service \<Rightarrow> (exn + jsv) \<times> service" where
  "addTask P now rnd taskData s =
     (case getTasks P now s of
        (Inl e, s1) \<Rightarrow> (Inl e, s1)
      | (Inr tasks, s1) \<Rightarrow>
          (case alloc (newTask P now rnd taskData # heap s1 tasks) s1 of
             (updatedTasks, s2) \<Rightarrow>
               (Inr (newTask P now rnd taskData), saveTasksImmediate P now updatedTasks s2)))"

text \<open>\<^verbatim>\<open>tasks.findIndex((task) => task.id === taskId)\<close>.\<close>

fun findIndex_id :: "jsv list \<Rightarrow> string \<Rightarrow> exn + nat option" where
  "findIndex_id [] taskId = Inr None"
| "findIndex_id (task # tasks) taskId =
     (case get_prop task ''id'' of
        Inl e \<Rightarrow> Inl e
      | Inr i \<Rightarrow> if strict_eq i (JStr taskId) then Inr (Some 0)
                 else (case findIndex_id tasks taskId of
                         Inl e \<Rightarrow> Inl e
                       | Inr None \<Rightarrow> Inr None
                       | Inr (Some n) \<Rightarrow> Inr (Some (Suc n))))"

definition read_field :: "jsv \<Rightarrow> string \<Rightarrow> jsv" where
  "read_field v k = (case get_prop v k of Inl _ \<Rightarrow> JUndef | Inr x \<Rightarrow> x)"

text \<open>\<^verbatim>\<open>{ ...currentTask, ...updates, updatedAt: dateUtils.now().toISOString() }\<close>; the patch
  is the list of its own properties, an explicit \<^verbatim>\<open>undefined\<close> included.  A new property is
  added after the existing ones; names that are array indices, which JavaScript lists before
  all others, are not fields of a task and are not treated apart.\<close>

definition merge_task :: "int \<Rightarrow> jsv \<Rightarrow> (string \<times> jsv) list \<Rightarrow> jsv" where
  "merge_task now currentTask updates =
     JObj (AList.update ''updatedAt'' (JStr (toISOString now))
            (foldl (\<lambda>obj kv. AList.update (fst kv) (snd kv) obj) (spread currentTask) updates))"

definition hasChanges :: "jsv \<Rightarrow> jsv \<Rightarrow> (string \<times> jsv) list \<Rightarrow> bool" where
  "hasChanges currentTask updatedTask updates =
     list_ex (\<lambda>key. \<not> strict_eq (read_field currentTask key) (read_field updatedTask key))
       (map fst updates)"

definition updateTask ::
  "platform \<Rightarrow> int \<Rightarrow> string \<Rightarrow> (string \<times> jsv) list \<Rightarrow> service \<Rightarrow> (exn + jsv) \<times> service" where
  "updateTask P now taskId updates s =
     (case getTasks P now s of
        (Inl e, s1) \<Rightarrow> (Inl e, s1)
      | (Inr tasks, s1) \<Rightarrow>
          (case findIndex_id (heap s1 tasks) taskId of
             Inl e \<Rightarrow> (Inl e, s1)
           | Inr None \<Rightarrow> (Inr JNull, s1)
           | Inr (Some taskIndex) \<Rightarrow>
               (let currentTask = heap s1 tasks ! taskIndex;
                    updatedTask = merge_task now currentTask updates
                in if \<not> hasChanges currentTask updatedTask updates then (Inr currentTask, s1)
                   else (Inr updatedTask,
                         saveTasksImmediate P now tasks
                           (s1\<lparr>heap := (heap s1)(tasks := (heap s1 tasks)[taskIndex := updatedTask])\<rparr>)))))"

definition deleteTask ::
  "platform \<Rightarrow> int \<Rightarrow> string \<Rightarrow> service \<Rightarrow> (exn + bool) \<times> service" where
  "deleteTask P now taskId s =
     (case getTasks P now s of
        (Inl e, s1) \<Rightarrow> (Inl e, s1)
      | (Inr tasks, s1) \<Rightarrow>
          (case findIndex_id (heap s1 tasks) taskId of
             Inl e \<Rightarrow> (Inl e, s1)
           | Inr None \<Rightarrow> (Inr False, s1)
           | Inr (Some taskIndex) \<Rightarrow>
               (Inr True,
                saveTasksImmediate P now tasks
                  (s1\<lparr>heap := (heap s1)(tasks := take taskIndex (heap s1 tasks) @
                                                  drop (Suc taskIndex) (heap s1 tasks))\<rparr>))))"

subsection \<open>Searching\<close>

definition bool_str :: "bool \<Rightarrow> string" where
  "bool_str b = (if b then ''true'' else ''false'')"

definition or_else :: "exn + bool \<Rightarrow> exn + bool \<Rightarrow> exn + bool" where
  "or_else a b = (case a of Inl e \<Rightarrow> Inl e | Inr x \<Rightarrow> if x then Inr True else b)"

definition with_prop :: "jsv \<Rightarrow> string \<Rightarrow> (jsv \<Rightarrow> exn + 'a) \<Rightarrow> exn + 'a" where
  "with_prop v k f = (case get_prop v k of Inl e \<Rightarrow> Inl e | Inr x \<Rightarrow> f x)"

text \<open>\<^verbatim>\<open>v.toLowerCase().includes(q)\<close>, \<^verbatim>\<open>v && v.toLowerCase().includes(q)\<close> and \<^verbatim>\<open>v.includes(q)\<close>
  (which an array also answers, by membership).\<close>

definition lower_includes :: "string \<Rightarrow> jsv \<Rightarrow> exn + bool" where
  "lower_includes q v =
     (case v of JStr x \<Rightarrow> Inr (str_includes (toLowerCase x) q) | _ \<Rightarrow> Inl TypeError)"

definition guarded_lower_includes :: "string \<Rightarrow> jsv \<Rightarrow> exn + bool" where
  "guarded_lower_includes q v = (if truthy v then lower_includes q v else Inr False)"

definition call_includes :: "string \<Rightarrow> jsv \<Rightarrow> exn + bool" where
  "call_includes q v =
     (case v of
        JStr x \<Rightarrow> Inr (str_includes x q)
      | JArr xs \<Rightarrow> Inr (JStr q \<in> set xs)
      | _ \<Rightarrow> Inl TypeError)"

definition searchText :: "jsv \<Rightarrow> exn + string" where
  "searchText task =
     (case map_exn (\<lambda>k. with_prop task k (\<lambda>v. Inr (to_string v)))
             [''title'', ''description'', ''name'', ''role'', ''dateAdded'', ''dayAdded''] of
        Inl e \<Rightarrow> Inl e
      | Inr parts \<Rightarrow> Inr (toLowerCase (intercalate '' '' parts)))"

definition single_word_match :: "platform \<Rightarrow> string \<Rightarrow> jsv \<Rightarrow> exn + bool" where
  "single_word_match P query task =
     or_else (with_prop task ''title'' (lower_includes query))
    (or_else (with_prop task ''name'' (guarded_lower_includes query))
    (or_else (with_prop task ''role'' (guarded_lower_includes query))
    (or_else (with_prop task ''dateAdded'' (call_includes query))
    (or_else (with_prop task ''dayAdded'' (lower_includes query))
    (or_else (with_prop task ''description'' (guarded_lower_includes query))
             (with_prop task ''createdAt''
                (\<lambda>v. Inr (matchesDateSearch P (AVal v) query))))))))"

text \<open>The callback of \<^verbatim>\<open>tasks.filter\<close> in \<^verbatim>\<open>searchTasks\<close>.\<close>

definition task_filter ::
  "platform \<Rightarrow> bool \<Rightarrow> bool \<Rightarrow> string \<Rightarrow> string list \<Rightarrow> jsv \<Rightarrow> exn + bool" where
  "task_filter P showCompleted showPending query queryWords task =
     (case (if \<not> showCompleted then with_prop task ''isCompleted'' (\<lambda>v. Inr (truthy v))
            else Inr False) of
        Inl e \<Rightarrow> Inl e
      | Inr hidden \<Rightarrow>
      if hidden then Inr False
      else case (if \<not> showPending then with_prop task ''isCompleted'' (\<lambda>v. Inr (\<not> truthy v))
                 else Inr False) of
        Inl e \<Rightarrow> Inl e
      | Inr hidden' \<Rightarrow>
      if hidden' then Inr False
      else if query = [] then Inr True
      else if 1 < length queryWords
      then (case searchText task of
              Inl e \<Rightarrow> Inl e
            | Inr text \<Rightarrow> Inr (list_all (\<lambda>word. str_includes text word) queryWords))
      else single_word_match P query task)"

fun filter_exn :: "('a \<Rightarrow> exn + bool) \<Rightarrow> 'a list \<Rightarrow> exn + 'a list" where
  "filter_exn f [] = Inr []"
| "filter_exn f (x # xs) =
     (case f x of
        Inl e \<Rightarrow> Inl e
      | Inr keep \<Rightarrow> (case filter_exn f xs of
                      Inl e \<Rightarrow> Inl e
                    | Inr ys \<Rightarrow> Inr (if keep then x # ys else ys)))"

text \<open>\<^verbatim>\<open>`${searchQuery}-${showCompleted}-${showPending}`\<close>.\<close>

definition cache_key :: "string \<Rightarrow> bool \<Rightarrow> bool \<Rightarrow> string" where
  "cache_key searchQuery showCompleted showPending =
     searchQuery @ ''-'' @ bool_str showCompleted @ ''-'' @ bool_str showPending"

definition searchTasks ::
  "platform \<Rightarrow> int \<Rightarrow> string \<Rightarrow> bool \<Rightarrow> bool \<Rightarrow> service \<Rightarrow> (exn + nat) \<times> service" where
  "searchTasks P now searchQuery showCompleted showPending s =
     (let cacheKey = cache_key searchQuery showCompleted showPending
      in case (case searchCache s cacheKey of
                 None \<Rightarrow> None
               | Some (result, ts) \<Rightarrow> if now - ts < 30000 then Some result else None) of
           Some result \<Rightarrow> (Inr result, s)
         | None \<Rightarrow>
         case getTasks P now s of
           (Inl e, s1) \<Rightarrow> (Inl e, s1)
         | (Inr tasks, s1) \<Rightarrow>
             if trim searchQuery = [] \<and> showCompleted \<and> showPending
             then (Inr tasks, s1\<lparr>searchCache := (searchCache s1)(cacheKey \<mapsto> (tasks, now))\<rparr>)
             else (let query = trim (toLowerCase searchQuery);
                       queryWords = filter (\<lambda>word. 0 < length word) (split_ws query)
                   in case filter_exn (task_filter P showCompleted showPending query queryWords)
                             (heap s1 tasks) of
                        Inl e \<Rightarrow> (Inl e, s1)
                      | Inr kept \<Rightarrow>
                          (case alloc kept s1 of
                             (filtered, s2) \<Rightarrow>
                               (Inr filtered,
                                s2\<lparr>searchCache := (searchCache s2)(cacheKey \<mapsto> (filtered, now))\<rparr>))))"

section \<open>Notions the properties are stated with\<close>

text \<open>A value with the shape of the \<^verbatim>\<open>Task\<close> interface (types/task): string \<^verbatim>\<open>id\<close>,
  \<^verbatim>\<open>title\<close>, \<^verbatim>\<open>createdAt\<close>, \<^verbatim>\<open>updatedAt\<close>, \<^verbatim>\<open>dateAdded\<close> and \<^verbatim>\<open>dayAdded\<close>, a boolean
  \<^verbatim>\<open>isCompleted\<close>, and \<^verbatim>\<open>description\<close>, \<^verbatim>\<open>name\<close> and \<^verbatim>\<open>role\<close> that are strings or missing.\<close>

definition is_task :: "jsv \<Rightarrow> bool" where
  "is_task t =
     (case t of
        JObj kvs \<Rightarrow>
          list_all (\<lambda>k. typeof (read_field t k) = ''string'')
            [''id'', ''title'', ''createdAt'', ''updatedAt'', ''dateAdded'', ''dayAdded''] \<and>
          typeof (read_field t ''isCompleted'') = ''boolean'' \<and>
          list_all (\<lambda>k. typeof (read_field t k) = ''string'' \<or> read_field t k = JUndef)
            [''description'', ''name'', ''role'']
      | _ \<Rightarrow> False)"

definition has_id :: "string \<Rightarrow> jsv \<Rightarrow> bool" where
  "has_id i t = (read_field t ''id'' = JStr i)"

definition primitive :: "jsv \<Rightarrow> bool" where
  "primitive v = (case v of JArr _ \<Rightarrow> False | JObj _ \<Rightarrow> False | _ \<Rightarrow> True)"


text \<open>The two ways \<^verbatim>\<open>getTasks\<close> answers from memory: the memoized result is younger than
  its time to live, or the memory cache of the service is.\<close>

definition memo_hit :: "int \<Rightarrow> service \<Rightarrow> bool" where
  "memo_hit now s =
     (case map_of (getTasks_memo s) ''[]'' of
        None \<Rightarrow> False
      | Some (v, ts) \<Rightarrow> now - ts < CACHE_EXPIRY)"

definition memory_hit :: "platform \<Rightarrow> int \<Rightarrow> service \<Rightarrow> bool" where
  "memory_hit P now s = (cache s \<noteq> None \<and> within_expiry P now (cacheTimestamp s))"

text \<open>The reading of the primary record, in the words of the specification: a record is
  kept when it is an object with a string \<^verbatim>\<open>id\<close>, \<^verbatim>\<open>title\<close>, \<^verbatim>\<open>createdAt\<close> and \<^verbatim>\<open>updatedAt\<close> and
  a boolean \<^verbatim>\<open>isCompleted\<close>; a kept record is returned with its \<^verbatim>\<open>title\<close>, \<^verbatim>\<open>description\<close>,
  \<^verbatim>\<open>name\<close> and \<^verbatim>\<open>role\<close> trimmed, a missing or \<^verbatim>\<open>null\<close> optional field being the empty string.
  Nothing is returned when a kept record has another value in an optional field, or when the
  text hashed for the checksum of the kept records (the JSON of their \<^verbatim>\<open>id\<close> and \<^verbatim>\<open>updatedAt\<close>)
  holds a character above U+00FF.\<close>

definition str_at :: "(string \<times> jsv) list \<Rightarrow> string \<Rightarrow> bool" where
  "str_at kvs k = (case map_of kvs k of Some (JStr _) \<Rightarrow> True | _ \<Rightarrow> False)"

definition bool_at :: "(string \<times> jsv) list \<Rightarrow> string \<Rightarrow> bool" where
  "bool_at kvs k = (case map_of kvs k of Some (JBool _) \<Rightarrow> True | _ \<Rightarrow> False)"

definition well_shaped :: "jsv \<Rightarrow> bool" where
  "well_shaped t =
     (case t of
        JObj kvs \<Rightarrow> str_at kvs ''id'' \<and> str_at kvs ''title'' \<and> bool_at kvs ''isCompleted'' \<and>
                    str_at kvs ''createdAt'' \<and> str_at kvs ''updatedAt''
      | _ \<Rightarrow> False)"

definition text_or_empty :: "jsv \<Rightarrow> string" where
  "text_or_empty v = (case v of JStr x \<Rightarrow> x | _ \<Rightarrow> [])"

definition optional_ok :: "jsv \<Rightarrow> bool" where
  "optional_ok t =
     list_all (\<lambda>k. case read_field t k of
                      JUndef \<Rightarrow> True | JNull \<Rightarrow> True | JStr _ \<Rightarrow> True | _ \<Rightarrow> False)
       [''description'', ''name'', ''role'']"

definition cleaned :: "jsv \<Rightarrow> jsv" where
  "cleaned t =
     JObj (AList.update ''role'' (JStr (trim (text_or_empty (read_field t ''role''))))
          (AList.update ''name'' (JStr (trim (text_or_empty (read_field t ''name''))))
          (AList.update ''description'' (JStr (trim (text_or_empty (read_field t ''description''))))
          (AList.update ''title'' (JStr (trim (text_or_empty (read_field t ''title''))))
             (spread t)))))"

definition digest_text :: "jsv list \<Rightarrow> string" where
  "digest_text ts =
     ser (JArr (map (\<lambda>t. JObj [(''id'', read_field t ''id''),
                              (''updatedAt'', read_field t ''updatedAt'')]) ts))"

definition spec_primary_collection :: "platform \<Rightarrow> service \<Rightarrow> jsv list" where
  "spec_primary_collection P s =
     (case localStorage s TASKS_KEY of
        None \<Rightarrow> []
      | Some text \<Rightarrow>
          if text = [] then []
          else (case JSON_parse P text of
                  Some (JArr records) \<Rightarrow>
                    (let kept = filter well_shaped records
                     in if list_all optional_ok kept \<and> \<not> beyond_latin1 P (digest_text kept)
                        then map cleaned kept else [])
                | _ \<Rightarrow> []))"

definition not_adopted :: "platform \<Rightarrow> int \<Rightarrow> service \<Rightarrow> bool" where
  "not_adopted P now s =
     (case localStorage s CACHE_KEY of
        None \<Rightarrow> True
      | Some cd \<Rightarrow> cd = [] \<or> (case adopt_secondary P now cd s of Inr (Some _) \<Rightarrow> False | _ \<Rightarrow> True))"

definition reaches_primary :: "platform \<Rightarrow> int \<Rightarrow> service \<Rightarrow> bool" where
  "reaches_primary P now s =
     (has_window P \<and> storage_available P \<and> \<not> memo_hit now s \<and> \<not> memory_hit P now s \<and>
      not_adopted P now s)"

definition returned :: "(exn + nat) \<times> service \<Rightarrow> jsv list" where
  "returned out = (case out of (Inr r, s1) \<Rightarrow> heap s1 r | (Inl _, _) \<Rightarrow> [])"

definition primary_tasks :: "platform \<Rightarrow> service \<Rightarrow> exn + jsv list" where
  "primary_tasks P s =
     (case parse_stored P (localStorage s TASKS_KEY) of
        Inl e \<Rightarrow> Inl e
      | Inr v \<Rightarrow> validateAndCleanTasks v)"

text \<open>Searching: a call that finds no fresh result under its key in the result cache, and
  the status filter.\<close>

definition search_miss :: "int \<Rightarrow> service \<Rightarrow> string \<Rightarrow> bool" where
  "search_miss now s key =
     (case searchCache s key of None \<Rightarrow> True | Some (result, ts) \<Rightarrow> \<not> now - ts < 30000)"

definition completed :: "jsv \<Rightarrow> bool" where
  "completed t = (read_field t ''isCompleted'' = JBool True)"

definition status_ok :: "bool \<Rightarrow> bool \<Rightarrow> jsv \<Rightarrow> bool" where
  "status_ok showCompleted showPending t =
     ((showCompleted \<or> \<not> completed t) \<and> (showPending \<or> completed t))"

text \<open>A task as the service itself builds and cleans it: the optional fields are strings
  too.\<close>

definition full_task :: "jsv \<Rightarrow> bool" where
  "full_task t =
     (is_task t \<and>
      list_all (\<lambda>k. typeof (read_field t k) = ''string'') [''description'', ''name'', ''role''])"

definition str_of :: "jsv \<Rightarrow> string \<Rightarrow> string" where
  "str_of t k = text_or_empty (read_field t k)"

text \<open>The matching of a non-blank query in the words of the specification, with the fields
  of the haystack joined by single spaces and the date of \<^verbatim>\<open>createdAt\<close> as
  \<^verbatim>\<open>formatDateForSearch\<close> renders it.\<close>

definition words_of :: "string \<Rightarrow> string list" where
  "words_of searchQuery = filter (\<lambda>w. w \<noteq> []) (split_ws (trim (toLowerCase searchQuery)))"

definition haystack :: "jsv \<Rightarrow> string" where
  "haystack t =
     toLowerCase (intercalate '' '' (map (str_of t)
       [''title'', ''description'', ''name'', ''role'', ''dateAdded'', ''dayAdded'']))"

definition word_in_fields :: "platform \<Rightarrow> string \<Rightarrow> jsv \<Rightarrow> bool" where
  "word_in_fields P w t =
     (str_includes (toLowerCase (str_of t ''title'')) w \<or>
      str_includes (toLowerCase (str_of t ''name'')) w \<or>
      str_includes (toLowerCase (str_of t ''role'')) w \<or>
      str_includes (str_of t ''dateAdded'') w \<or>
      str_includes (toLowerCase (str_of t ''dayAdded'')) w \<or>
      str_includes (toLowerCase (str_of t ''description'')) w \<or>
      str_includes (formatDateForSearch P (AVal (read_field t ''createdAt''))) w)"

definition spec_match :: "platform \<Rightarrow> string \<Rightarrow> jsv \<Rightarrow> bool" where
  "spec_match P searchQuery t =
     (if 1 < length (words_of searchQuery)
      then list_all (\<lambda>w. str_includes (haystack t) w) (words_of searchQuery)
      else list_all (\<lambda>w. word_in_fields P w t) (words_of searchQuery))"

text \<open>The same with the haystack read as the plain concatenation of the fields.\<close>

definition haystack_concat :: "jsv \<Rightarrow> string" where
  "haystack_concat t =
     toLowerCase (concat (map (str_of t)
       [''title'', ''description'', ''name'', ''role'', ''dateAdded'', ''dayAdded'']))"

definition spec_match_concat :: "platform \<Rightarrow> string \<Rightarrow> jsv \<Rightarrow> bool" where
  "spec_match_concat P searchQuery t =
     (if 1 < length (words_of searchQuery)
      then list_all (\<lambda>w. str_includes (haystack_concat t) w) (words_of searchQuery)
      else list_all (\<lambda>w. word_in_fields P w t) (words_of searchQuery))"

section \<open>Example data\<close>

text \<open>A stand-in for \<^verbatim>\<open>JSON.parse\<close> that knows the text of the listed documents.\<close>

definition parse_table :: "jsv list \<Rightarrow> string \<Rightarrow> jsv option" where
  "parse_table docs text = find (\<lambda>d. ser d = text) docs"

definition task_a :: jsv where
  "task_a = JObj [(''id'', JStr ''a1''), (''title'', JStr ''Buy groceries''),
                  (''description'', JStr ''milk and bread''), (''name'', JStr ''John''),
                  (''role'', JStr ''Family''), (''isCompleted'', JBool False),
                  (''createdAt'', JStr ''2024-01-15T09:50:00.123Z''),
                  (''updatedAt'', JStr ''2024-01-15T09:50:00.123Z''),
                  (''dateAdded'', JStr ''2024-01-15''), (''dayAdded'', JStr ''Monday'')]"

definition task_b :: jsv where
  "task_b = JObj [(''id'', JStr ''b2''), (''title'', JStr ''Team meeting''),
                  (''description'', JStr ''''), (''name'', JStr ''Sarah''),
                  (''role'', JStr ''Manager''), (''isCompleted'', JBool True),
                  (''createdAt'', JStr ''2024-01-14T08:00:00.000Z''),
                  (''updatedAt'', JStr ''2024-01-14T08:00:00.000Z''),
                  (''dateAdded'', JStr ''2024-01-14''), (''dayAdded'', JStr ''Sunday'')]"

definition P_demo :: platform where
  "P_demo = \<lparr>has_window = True, storage_available = True, quota_exceeded = (\<lambda>k v. False),
             JSON_parse = parse_table [JArr [task_a, task_b]], tza = (\<lambda>t. 0),
             Date_parse_other = (\<lambda>text. None), StringToNumber = (\<lambda>text. None),
             beyond_latin1 = (\<lambda>text. False)\<rparr>"

text \<open>A service that has just read the two tasks (the memoized result is array 0), and one
  that has only the primary record in storage.\<close>

definition s_warm :: service where
  "s_warm = \<lparr>heap = (\<lambda>r. [])(0 := [task_a, task_b]), fresh = 1, cache = Some 0,
             cacheTimestamp = JNum 1705312200123, searchCache = Map.empty,
             getTasks_memo = [(''[]'', 0, 1705312200123)],
             localStorage = [TASKS_KEY \<mapsto> ser (JArr [task_a, task_b])]\<rparr>"

definition s_cold :: service where
  "s_cold = \<lparr>heap = (\<lambda>r. []), fresh = 0, cache = None, cacheTimestamp = JNum 0,
             searchCache = Map.empty, getTasks_memo = [],
             localStorage = [TASKS_KEY \<mapsto> ser (JArr [task_a, task_b])]\<rparr>"



text \<open>A stored record with a number where the description should be, and a browser whose
  storage cannot be reached.\<close>

definition task_bad :: jsv where
  "task_bad = JObj [(''id'', JStr ''c3''), (''title'', JStr ''Write report''),
                    (''description'', JNum 5), (''isCompleted'', JBool False),
                    (''createdAt'', JStr ''2024-01-13T08:00:00.000Z''),
                    (''updatedAt'', JStr ''2024-01-13T08:00:00.000Z''),
                    (''dateAdded'', JStr ''2024-01-13''), (''dayAdded'', JStr ''Saturday'')]"

definition P_bad :: platform where
  "P_bad = P_demo\<lparr>JSON_parse := parse_table [JArr [task_a, task_bad]]\<rparr>"

definition s_bad :: service where
  "s_bad = s_cold\<lparr>localStorage := [TASKS_KEY \<mapsto> ser (JArr [task_a, task_bad])]\<rparr>"

definition P_down :: platform where
  "P_down = P_demo\<lparr>storage_available := False\<rparr>"

text \<open>A task whose title ends where its description begins, in a service that has just
  read it.\<close>

definition task_c :: jsv where
  "task_c = JObj [(''id'', JStr ''c3''), (''title'', JStr ''Fix login''),
                  (''description'', JStr ''bug report''), (''name'', JStr ''Alex''),
                  (''role'', JStr ''Developer''), (''isCompleted'', JBool False),
                  (''createdAt'', JStr ''2024-01-15T09:50:00.123Z''),
                  (''updatedAt'', JStr ''2024-01-15T09:50:00.123Z''),
                  (''dateAdded'', JStr ''2024-01-15''), (''dayAdded'', JStr ''Monday'')]"

definition s_fix :: service where
  "s_fix = s_warm\<lparr>heap := (\<lambda>r. [])(0 := [task_c])\<rparr>"

text \<open>A secondary cache entry whose payload was edited by hand (the title of the first task)
  while its checksum, computed from the two tasks as they were, was left alone.\<close>

definition task_a_edited :: jsv where
  "task_a_edited = JObj [(''id'', JStr ''a1''), (''title'', JStr ''Buy champagne''),
                  (''description'', JStr ''milk and bread''), (''name'', JStr ''John''),
                  (''role'', JStr ''Family''), (''isCompleted'', JBool False),
                  (''createdAt'', JStr ''2024-01-15T09:50:00.123Z''),
                  (''updatedAt'', JStr ''2024-01-15T09:50:00.123Z''),
                  (''dateAdded'', JStr ''2024-01-15''), (''dayAdded'', JStr ''Monday'')]"

definition checksum_ab :: string where
  "checksum_ab =
     (case generateChecksum P_demo (JArr [task_a, task_b]) of Inl _ \<Rightarrow> [] | Inr c \<Rightarrow> c)"

definition entry_tampered :: jsv where
  "entry_tampered = JObj [(''data'', JArr [task_a_edited, task_b]),
                          (''timestamp'', JNum 1705312200123),
                          (''checksum'', JStr checksum_ab)]"

definition P_tamper :: platform where
  "P_tamper = P_demo\<lparr>JSON_parse := parse_table [entry_tampered, JArr [task_a, task_b]]\<rparr>"


text \<open>The same with the \<^verbatim>\<open>updatedAt\<close> of the first task edited instead of its title.\<close>

definition task_a_restamped :: jsv where
  "task_a_restamped = JObj [(''id'', JStr ''a1''), (''title'', JStr ''Buy groceries''),
                  (''description'', JStr ''milk and bread''), (''name'', JStr ''John''),
                  (''role'', JStr ''Family''), (''isCompleted'', JBool True),
                  (''createdAt'', JStr ''2024-01-15T09:50:00.123Z''),
                  (''updatedAt'', JStr ''2024-01-15T09:55:00.000Z''),
                  (''dateAdded'', JStr ''2024-01-15''), (''dayAdded'', JStr ''Monday'')]"

definition entry_restamped :: jsv where
  "entry_restamped = JObj [(''data'', JArr [task_a_restamped, task_b]),
                           (''timestamp'', JNum 1705312200123),
                           (''checksum'', JStr checksum_ab)]"

definition P_restamp :: platform where
  "P_restamp = P_demo\<lparr>JSON_parse := parse_table [entry_restamped, JArr [task_a, task_b]]\<rparr>"


text \<open>A primary record as another program may have left it: a task with an untrimmed title
  and role, a \<^verbatim>\<open>null\<close> name and no description; a record whose \<^verbatim>\<open>id\<close> is a number; a \<^verbatim>\<open>null\<close>;
  and a clean task.  \<open>task_tidy\<close> is the first task as the reading should return it.\<close>

definition task_messy :: jsv where
  "task_messy = JObj [(''id'', JStr ''a1''), (''title'', JStr ''  Buy groceries ''),
                      (''name'', JNull), (''role'', JStr '' Family''),
                      (''isCompleted'', JBool False),
                      (''createdAt'', JStr ''2024-01-15T09:50:00.123Z''),
                      (''updatedAt'', JStr ''2024-01-15T09:50:00.123Z''),
                      (''dateAdded'', JStr ''2024-01-15''), (''dayAdded'', JStr ''Monday'')]"

definition task_tidy :: jsv where
  "task_tidy = JObj [(''id'', JStr ''a1''), (''title'', JStr ''Buy groceries''),
                     (''name'', JStr ''''), (''role'', JStr ''Family''),
                     (''isCompleted'', JBool False),
                     (''createdAt'', JStr ''2024-01-15T09:50:00.123Z''),
                     (''updatedAt'', JStr ''2024-01-15T09:50:00.123Z''),
                     (''dateAdded'', JStr ''2024-01-15''), (''dayAdded'', JStr ''Monday''),
                     (''description'', JStr '''')]"

definition record_numbered :: jsv where
  "record_numbered = JObj [(''id'', JNum 7), (''title'', JStr ''Numbered''),
                           (''isCompleted'', JBool False),
                           (''createdAt'', JStr ''2024-01-13T08:00:00.000Z''),
                           (''updatedAt'', JStr ''2024-01-13T08:00:00.000Z'')]"

definition stored_messy :: jsv where
  "stored_messy = JArr [task_messy, record_numbered, JNull, task_b]"

definition P_messy :: platform where
  "P_messy = P_demo\<lparr>JSON_parse := parse_table [stored_messy]\<rparr>"

definition s_messy :: service where
  "s_messy = s_cold\<lparr>localStorage := [TASKS_KEY \<mapsto> ser stored_messy]\<rparr>"

text \<open>A stored task whose \<^verbatim>\<open>id\<close> begins with a character above U+00FF, written here as a
  question mark, and a browser whose \<^verbatim>\<open>btoa\<close> refuses the texts that hold it.\<close>

definition task_wide :: jsv where
  "task_wide = JObj [(''id'', JStr ''?2''), (''title'', JStr ''Team meeting''),
                  (''description'', JStr ''''), (''name'', JStr ''Sarah''),
                  (''role'', JStr ''Manager''), (''isCompleted'', JBool True),
                  (''createdAt'', JStr ''2024-01-14T08:00:00.000Z''),
                  (''updatedAt'', JStr ''2024-01-14T08:00:00.000Z''),
                  (''dateAdded'', JStr ''2024-01-14''), (''dayAdded'', JStr ''Sunday'')]"

definition P_wide :: platform where
  "P_wide = P_demo\<lparr>JSON_parse := parse_table [JArr [task_a, task_wide]],
                    beyond_latin1 := (\<lambda>text. CHR ''?'' \<in> set text)\<rparr>"

definition s_wide :: service where
  "s_wide = s_cold\<lparr>localStorage := [TASKS_KEY \<mapsto> ser (JArr [task_a, task_wide])]\<rparr>"







section \<open>Properties of the memoize utility\<close>

lemma show_nat_digit: "n < 10 \<Longrightarrow> show_nat n = [digit_char n]"
  by (simp add: show_nat.simps)

text \<open>
  C8 (memoize keeps its cache within the maximum size).  The clean-up removes
  \<^verbatim>\<open>Math.floor(size * 0.25)\<close> entries, which is none while the cache holds fewer than four:
  with \<^verbatim>\<open>maxSize: 1\<close> the calls \<^verbatim>\<open>f(1)\<close> and \<^verbatim>\<open>f(2)\<close> leave two entries in the cache.
\<close>

theorem memoize_exceeds_maxSize:
  "length (fst (memo_run \<lparr>maxSize = Some 1, ttl = None, keyGenerator = None\<rparr> first_arg
                  [([JNum 1], 1000), ([JNum 2], 1001)] [] ())) = 2"
  by (simp add: memoized_def keyGenerator_of_def maxSize_of_def ttl_of_def first_arg_def
      evict_oldest_def show_int_def show_nat_digit digit_char_def)

section \<open>Properties of the persistence service\<close>

subsection \<open>Reading never throws and never writes the primary record\<close>

lemma getTasks_never_throws: "\<exists>r s1. getTasks P now s = (Inr r, s1)"
  by (auto simp: getTasks_def memoized_def Let_def split: option.splits prod.splits sum.splits)

lemma is_task_obj: "is_task t \<Longrightarrow> \<exists>kvs. t = JObj kvs"
  by (cases t) (simp_all add: is_task_def)

lemma get_prop_obj: "get_prop (JObj kvs) k = Inr (read_field (JObj kvs) k)"
  by (simp add: get_prop_def read_field_def)

lemma get_prop_task: "is_task t \<Longrightarrow> get_prop t k = Inr (read_field t k)"
  using is_task_obj get_prop_obj by blast

lemma strict_eq_str: "strict_eq v (JStr i) = (v = JStr i)"
  by (cases v) (simp_all add: strict_eq_def)

lemma findIndex_none:
  "\<forall>t \<in> set xs. is_task t \<and> \<not> has_id i t \<Longrightarrow> findIndex_id xs i = Inr None"
  by (induction xs) (simp_all add: get_prop_task strict_eq_str has_id_def)

lemma findIndex_some:
  "findIndex_id xs i = Inr (Some n) \<Longrightarrow>
     n < length xs \<and> get_prop (xs ! n) ''id'' = Inr (JStr i) \<and>
     (\<forall>j < n. get_prop (xs ! j) ''id'' \<noteq> Inr (JStr i))"
proof (induction xs arbitrary: n)
  case Nil
  then show ?case by simp
next
  case (Cons x xs)
  show ?case
  proof (cases "get_prop x ''id''")
    case (Inl e)
    with Cons.prems show ?thesis by simp
  next
    case (Inr v)
    show ?thesis
    proof (cases "v = JStr i")
      case True
      with Inr Cons.prems show ?thesis by (simp add: strict_eq_str)
    next
      case False
      with Inr Cons.prems obtain m where
        m: "findIndex_id xs i = Inr (Some m)" and n: "n = Suc m"
        by (auto simp: strict_eq_str split: sum.splits option.splits)
      from Cons.IH [OF m] False Inr n show ?thesis
        by (auto simp: less_Suc_eq_0_disj)
    qed
  qed
qed

lemma findIndex_found:
  "\<forall>t \<in> set xs. is_task t \<Longrightarrow> \<exists>t \<in> set xs. has_id i t \<Longrightarrow>
     \<exists>n. findIndex_id xs i = Inr (Some n)"
proof (induction xs)
  case Nil
  then show ?case by simp
next
  case (Cons x xs)
  show ?case
  proof (cases "has_id i x")
    case True
    with Cons.prems show ?thesis by (simp add: get_prop_task strict_eq_str has_id_def)
  next
    case False
    with Cons.prems have "\<exists>t \<in> set xs. has_id i t" by auto
    with Cons obtain n where "findIndex_id xs i = Inr (Some n)" by auto
    with False Cons.prems show ?thesis
      by (simp add: get_prop_task strict_eq_str has_id_def)
  qed
qed

lemma keys_differ: "TASKS_KEY \<noteq> CACHE_KEY"
  by (simp add: TASKS_KEY_def CACHE_KEY_def)

lemma alloc_frame:
  "alloc xs s = (r, s1) \<Longrightarrow>
     r = fresh s \<and> localStorage s1 = localStorage s \<and> heap s1 = (heap s)(r := xs) \<and>
     cache s1 = cache s \<and> getTasks_memo s1 = getTasks_memo s"
  by (auto simp: alloc_def)

lemma updateCache_frame:
  "updateCache P now r s = (res, s1) \<Longrightarrow>
     heap s1 = heap s \<and> (\<forall>k. k \<noteq> CACHE_KEY \<longrightarrow> localStorage s1 k = localStorage s k)"
  by (auto simp: updateCache_def Let_def setItem_def split: sum.splits if_splits)

lemma saveTasksImmediate_heap: "heap (saveTasksImmediate P now r s) = heap s"
  by (auto simp: saveTasksImmediate_def setItem_def split: sum.splits prod.splits if_splits
      dest: updateCache_frame)

lemma saveTasksImmediate_primary:
  assumes "has_window P" "storage_available P"
    and "\<not> quota_exceeded P TASKS_KEY (ser (JArr (heap s r)))"
  shows "localStorage (saveTasksImmediate P now r s) TASKS_KEY = Some (ser (JArr (heap s r)))"
proof -
  let ?s1 = "s\<lparr>localStorage := (localStorage s)(TASKS_KEY \<mapsto> ser (JArr (heap s r)))\<rparr>"
  obtain res s2 where u: "updateCache P now r ?s1 = (res, s2)"
    by (cases "updateCache P now r ?s1")
  from updateCache_frame [OF u] keys_differ
  have "localStorage s2 TASKS_KEY = Some (ser (JArr (heap s r)))" by simp
  with assms u show ?thesis
    by (auto simp: saveTasksImmediate_def setItem_def split: sum.splits)
qed

lemma read_primary_frame:
  "read_primary P now s = (res, s1) \<Longrightarrow> localStorage s1 TASKS_KEY = localStorage s TASKS_KEY"
  using keys_differ
  by (auto simp: read_primary_def split: sum.splits option.splits prod.splits if_splits
      dest!: updateCache_frame alloc_frame)

lemma adopt_secondary_frame:
  "adopt_secondary P now cd s = Inr (Some (r, s1)) \<Longrightarrow> localStorage s1 = localStorage s"
  by (auto simp: adopt_secondary_def split: sum.splits option.splits prod.splits if_splits
      dest!: alloc_frame)

lemma getTasks_try_frame:
  "getTasks_try P now s = (res, s1) \<Longrightarrow> localStorage s1 TASKS_KEY = localStorage s TASKS_KEY"
  using keys_differ
  by (auto simp: getTasks_try_def removeItem_def
      split: sum.splits option.splits prod.splits if_splits
      dest!: adopt_secondary_frame read_primary_frame)

lemma getTasks_body_frame:
  "getTasks_body P now s = (r, s1) \<Longrightarrow> localStorage s1 TASKS_KEY = localStorage s TASKS_KEY"
  by (auto simp: getTasks_body_def split: sum.splits prod.splits if_splits
      dest!: getTasks_try_frame alloc_frame)

lemma getTasks_primary_unchanged:
  "getTasks P now s = (res, s1) \<Longrightarrow> localStorage s1 TASKS_KEY = localStorage s TASKS_KEY"
  by (auto simp: getTasks_def memoized_def Let_def
      split: option.splits prod.splits sum.splits if_splits dest!: getTasks_body_frame)

lemma key_of_no_args: "keyGenerator_of getTasks_options [] = ''[]''"
  by (simp add: keyGenerator_of_def getTasks_options_def)

lemma getTasks_options_simps:
  "ttl_of getTasks_options = CACHE_EXPIRY" "maxSize_of getTasks_options = 1"
  by (simp_all add: ttl_of_def maxSize_of_def getTasks_options_def)

lemma getTasks_unfold:
  "getTasks P now s =
     (if memo_hit now s then (Inr (fst (the (map_of (getTasks_memo s) ''[]''))), s)
      else case getTasks_body P now s of
             (r, s1) \<Rightarrow>
               (Inr r, s1\<lparr>getTasks_memo :=
                           AList.update ''[]'' (r, now)
                             (if 1 \<le> length (getTasks_memo s) then evict_oldest (getTasks_memo s)
                              else getTasks_memo s)\<rparr>))"
  by (auto simp: getTasks_def memoized_def key_of_no_args getTasks_options_simps memo_hit_def
      CACHE_EXPIRY_def split: option.splits prod.splits)

lemma getTasks_from_memory:
  assumes "getTasks P now s = (res, s1)" and "memo_hit now s \<or> memory_hit P now s"
  shows "localStorage s1 = localStorage s"
proof (cases "memo_hit now s")
  case True
  with assms(1) show ?thesis
    by (simp add: getTasks_unfold)
next
  case False
  with assms(2) have m: "memory_hit P now s" by simp
  have b: "localStorage (snd (getTasks_body P now s)) = localStorage s"
    using m
    by (auto simp: getTasks_body_def getTasks_try_def memory_hit_def alloc_def
        split: option.splits)
  from assms(1) False b show ?thesis
    by (auto simp: getTasks_unfold split: prod.splits)
qed


subsection \<open>Adding a task\<close>

lemma addTask_result:
  "\<exists>s'. addTask P now rnd taskData s = (Inr (newTask P now rnd taskData), s')"
proof -
  obtain r s1 where g: "getTasks P now s = (Inr r, s1)"
    using getTasks_never_throws by blast
  show ?thesis
    by (simp add: addTask_def g split: prod.splits)
qed

text \<open>
  C10 (new tasks start pending).  \<^verbatim>\<open>addTask\<close> always returns, and the task it returns has
  \<^verbatim>\<open>isCompleted\<close> equal to \<^verbatim>\<open>false\<close>, whatever the creation input is; the input has no field
  for the completion state.
\<close>

theorem addTask_starts_pending:
  "\<exists>task s'. addTask P now rnd taskData s = (Inr task, s') \<and>
     get_prop task ''isCompleted'' = Inr (JBool False)"
proof -
  obtain s' where a: "addTask P now rnd taskData s = (Inr (newTask P now rnd taskData), s')"
    using addTask_result by blast
  have "get_prop (newTask P now rnd taskData) ''isCompleted'' = Inr (JBool False)"
    by (simp add: newTask_def get_prop_def)
  with a show ?thesis by blast
qed

subsection \<open>Updating and deleting a task that is not there\<close>

text \<open>
  C6, as amended.  When the collection \<^verbatim>\<open>getTasks\<close> returns holds no task with the given
  id, \<^verbatim>\<open>updateTask\<close> returns \<^verbatim>\<open>null\<close> and \<^verbatim>\<open>deleteTask\<close> returns \<^verbatim>\<open>false\<close>, neither throws, and
  the service is left in the state the read produced: the primary record is unchanged, and
  when the read was answered from memory nothing in durable storage changes.
\<close>

theorem not_found_leaves_primary_record:
  assumes g: "getTasks P now s = (Inr r, s1)"
    and absent: "\<forall>t \<in> set (heap s1 r). is_task t \<and> \<not> has_id taskId t"
  shows "updateTask P now taskId updates s = (Inr JNull, s1) \<and>
         deleteTask P now taskId s = (Inr False, s1) \<and>
         localStorage s1 TASKS_KEY = localStorage s TASKS_KEY \<and>
         (memo_hit now s \<or> memory_hit P now s \<longrightarrow> localStorage s1 = localStorage s)"
proof -
  have f: "findIndex_id (heap s1 r) taskId = Inr None"
    using absent by (rule findIndex_none)
  show ?thesis
    using g f getTasks_primary_unchanged [OF g] getTasks_from_memory [OF g]
    by (simp add: updateTask_def deleteTask_def)
qed

subsection \<open>Reading the primary record\<close>

lemma typeof_string: "(typeof v = ''string'') = (\<exists>x. v = JStr x)"
  by (cases v) (simp_all add: typeof_def)

lemma typeof_boolean: "(typeof v = ''boolean'') = (\<exists>b. v = JBool b)"
  by (cases v) (simp_all add: typeof_def)

lemma str_at_iff: "str_at kvs k = (\<exists>x. map_of kvs k = Some (JStr x))"
  by (auto simp: str_at_def split: option.splits jsv.splits)

lemma bool_at_iff: "bool_at kvs k = (\<exists>b. map_of kvs k = Some (JBool b))"
  by (auto simp: bool_at_def split: option.splits jsv.splits)

lemma has_type_obj_string: "has_type (JObj kvs) k ''string'' = str_at kvs k"
  by (auto simp: has_type_def get_prop_def typeof_string str_at_iff split: option.splits)

lemma has_type_obj_boolean: "has_type (JObj kvs) k ''boolean'' = bool_at kvs k"
  by (auto simp: has_type_def get_prop_def typeof_boolean bool_at_iff split: option.splits)

lemma has_type_prim:
  "\<not> has_type JUndef k ty" "\<not> has_type JNull k ty"
  "has_type (JBool b) k ty = (ty = ''undefined'')" "has_type (JNum n) k ty = (ty = ''undefined'')"
  "has_type (JStr x) k ty = (ty = ''undefined'')" "has_type (JArr xs) k ty = (ty = ''undefined'')"
  by (auto simp: has_type_def get_prop_def typeof_def)

lemma valid_shape_iff: "valid_shape t = well_shaped t"
  by (cases t)
     (simp_all add: valid_shape_def well_shaped_def has_type_prim has_type_obj_string
        has_type_obj_boolean truthy_def)

lemma opt_trim_ok:
  "(case v of JUndef \<Rightarrow> True | JNull \<Rightarrow> True | JStr _ \<Rightarrow> True | _ \<Rightarrow> False) \<Longrightarrow>
     opt_trim v = Inr (trim (text_or_empty v))"
  by (cases v) (simp_all add: opt_trim_def call_trim_def text_or_empty_def trim_def)

lemma opt_trim_bad:
  "\<not> (case v of JUndef \<Rightarrow> True | JNull \<Rightarrow> True | JStr _ \<Rightarrow> True | _ \<Rightarrow> False) \<Longrightarrow>
     opt_trim v = Inl TypeError"
  by (cases v) (simp_all add: opt_trim_def call_trim_def)

lemma opt_trim_error: "opt_trim v = Inl e \<Longrightarrow> e = TypeError"
  by (cases v) (simp_all add: opt_trim_def call_trim_def)

lemma clean_task_cases:
  assumes "well_shaped t"
  shows "clean_task t = (if optional_ok t then Inr (cleaned t) else Inl TypeError)"
proof -
  from assms obtain kvs where t: "t = JObj kvs"
    by (cases t) (simp_all add: well_shaped_def)
  from assms t obtain x where x: "read_field t ''title'' = JStr x"
    by (auto simp: well_shaped_def str_at_iff read_field_def get_prop_def)
  have g: "\<And>k. get_prop t k = Inr (read_field t k)"
    by (simp add: t get_prop_def read_field_def)
  show ?thesis
  proof (cases "optional_ok t")
    case True
    then show ?thesis
      by (simp add: clean_task_def g x call_trim_def optional_ok_def opt_trim_ok cleaned_def
          text_or_empty_def)
  next
    case False
    then show ?thesis
      by (auto simp: clean_task_def g x call_trim_def optional_ok_def opt_trim_ok opt_trim_bad
          split: sum.splits dest: opt_trim_error)
  qed
qed

lemma map_exn_total: "\<forall>x \<in> set xs. f x = Inr (g x) \<Longrightarrow> map_exn f xs = Inr (map g xs)"
  by (induction xs) simp_all

lemma map_exn_fails:
  "\<forall>x \<in> set xs. f x = Inr (g x) \<or> f x = Inl e \<Longrightarrow> \<exists>x \<in> set xs. f x = Inl e \<Longrightarrow>
     map_exn f xs = Inl e"
proof (induction xs)
  case Nil
  then show ?case by simp
next
  case (Cons x xs)
  show ?case
  proof (cases "f x")
    case (Inl e')
    with Cons.prems(1) show ?thesis by auto
  next
    case (Inr y)
    with Cons.prems have "\<exists>x \<in> set xs. f x = Inl e" by auto
    with Cons have "map_exn f xs = Inl e" by simp
    with Inr show ?thesis by simp
  qed
qed

lemma validateAndCleanTasks_array:
  "validateAndCleanTasks (JArr xs) =
     (if list_all optional_ok (filter well_shaped xs) then Inr (map cleaned (filter well_shaped xs))
      else Inl TypeError)"
proof -
  have v: "filter valid_shape xs = filter well_shaped xs"
    by (simp add: valid_shape_iff [abs_def])
  let ?kept = "filter well_shaped xs"
  have c: "\<forall>t \<in> set ?kept. clean_task t = (if optional_ok t then Inr (cleaned t) else Inl TypeError)"
    by (simp add: clean_task_cases)
  show ?thesis
  proof (cases "list_all optional_ok ?kept")
    case True
    with c have "\<forall>t \<in> set ?kept. clean_task t = Inr (cleaned t)"
      by (simp add: list_all_iff)
    then have "map_exn clean_task ?kept = Inr (map cleaned ?kept)"
      by (rule map_exn_total)
    with True v show ?thesis by (simp add: validateAndCleanTasks_def)
  next
    case False
    with c have "\<exists>t \<in> set ?kept. clean_task t = Inl TypeError"
      by (auto simp: list_all_iff)
    moreover from c have "\<forall>t \<in> set ?kept. clean_task t = Inr (cleaned t) \<or> clean_task t = Inl TypeError"
      by auto
    ultimately have "map_exn clean_task ?kept = Inl TypeError"
      using map_exn_fails by blast
    with False v show ?thesis by (simp add: validateAndCleanTasks_def)
  qed
qed

lemma validateAndCleanTasks_not_array:
  "\<forall>xs. v \<noteq> JArr xs \<Longrightarrow> validateAndCleanTasks v = Inl TypeError"
  by (cases v) (simp_all add: validateAndCleanTasks_def)

lemma validateAndCleanTasks_objects:
  "validateAndCleanTasks v = Inr ys \<Longrightarrow> \<forall>t \<in> set ys. \<exists>kvs. t = JObj kvs"
proof (cases v)
  case (JArr xs)
  assume "validateAndCleanTasks v = Inr ys"
  with JArr have "ys = map cleaned (filter well_shaped xs)"
    by (simp add: validateAndCleanTasks_array split: if_splits)
  then show ?thesis by (auto simp: cleaned_def)
qed (simp_all add: validateAndCleanTasks_def)

lemma checksum_of_objects:
  "\<forall>t \<in> set xs. \<exists>kvs. t = JObj kvs \<Longrightarrow> generateChecksum P (JArr xs) = btoa P (digest_text xs)"
proof -
  assume "\<forall>t \<in> set xs. \<exists>kvs. t = JObj kvs"
  then have "\<forall>t \<in> set xs. id_updatedAt t =
      Inr (JObj [(''id'', read_field t ''id''), (''updatedAt'', read_field t ''updatedAt'')])"
    by (auto simp: id_updatedAt_def get_prop_def read_field_def)
  then have "map_exn id_updatedAt xs =
      Inr (map (\<lambda>t. JObj [(''id'', read_field t ''id''), (''updatedAt'', read_field t ''updatedAt'')]) xs)"
    by (rule map_exn_total)
  then show ?thesis by (simp add: generateChecksum_def digest_text_def)
qed

lemma updateCache_objects:
  assumes "\<forall>t \<in> set (heap s r). \<exists>kvs. t = JObj kvs"
    and "\<not> beyond_latin1 P (digest_text (heap s r))"
  shows "\<exists>s1. updateCache P now r s = (Inr (), s1) \<and> heap s1 = heap s"
  using checksum_of_objects [OF assms(1), of P] assms(2)
  by (auto simp: updateCache_def Let_def setItem_def btoa_def split: sum.splits)

lemma updateCache_refused:
  assumes "\<forall>t \<in> set (heap s r). \<exists>kvs. t = JObj kvs"
    and "beyond_latin1 P (digest_text (heap s r))"
  shows "updateCache P now r s =
           (Inl InvalidCharacterError, s\<lparr>cache := Some r, cacheTimestamp := JNum now\<rparr>)"
  using checksum_of_objects [OF assms(1), of P] assms(2)
  by (simp add: updateCache_def Let_def btoa_def)

lemma primary_tasks_objects:
  "primary_tasks P s = Inr xs \<Longrightarrow> \<forall>t \<in> set xs. \<exists>kvs. t = JObj kvs"
  by (auto simp: primary_tasks_def split: sum.splits dest: validateAndCleanTasks_objects)

lemma read_primary_unavailable:
  "\<not> storage_available P \<Longrightarrow> read_primary P now s = (Inl StorageError, s)"
  by (simp add: read_primary_def getItem_def)

lemma read_primary_fail:
  "storage_available P \<Longrightarrow> primary_tasks P s = Inl e \<Longrightarrow> read_primary P now s = (Inl e, s)"
  by (auto simp: read_primary_def getItem_def primary_tasks_def split: sum.splits)

lemma read_primary_ok:
  assumes "storage_available P" and p: "primary_tasks P s = Inr xs"
    and b: "\<not> beyond_latin1 P (digest_text xs)"
  shows "\<exists>s1. read_primary P now s = (Inr (fresh s), s1) \<and> heap s1 = (heap s)(fresh s := xs)"
proof -
  let ?s1 = "s\<lparr>heap := (heap s)(fresh s := xs), fresh := Suc (fresh s)\<rparr>"
  from primary_tasks_objects [OF p] have "\<forall>t \<in> set (heap ?s1 (fresh s)). \<exists>kvs. t = JObj kvs"
    by simp
  moreover from b have "\<not> beyond_latin1 P (digest_text (heap ?s1 (fresh s)))" by simp
  ultimately obtain s2 where
    u: "updateCache P now (fresh s) ?s1 = (Inr (), s2)" "heap s2 = heap ?s1"
    using updateCache_objects by blast
  from p obtain pv where
    v: "parse_stored P (localStorage s TASKS_KEY) = Inr pv" "validateAndCleanTasks pv = Inr xs"
    by (auto simp: primary_tasks_def split: sum.splits)
  show ?thesis
    using assms(1) u v by (simp add: read_primary_def getItem_def alloc_def)
qed

lemma read_primary_refused:
  assumes "storage_available P" and p: "primary_tasks P s = Inr xs"
    and b: "beyond_latin1 P (digest_text xs)"
  shows "\<exists>s1. read_primary P now s = (Inl InvalidCharacterError, s1)"
proof -
  let ?s1 = "s\<lparr>heap := (heap s)(fresh s := xs), fresh := Suc (fresh s)\<rparr>"
  from primary_tasks_objects [OF p] have "\<forall>t \<in> set (heap ?s1 (fresh s)). \<exists>kvs. t = JObj kvs"
    by simp
  moreover from b have "beyond_latin1 P (digest_text (heap ?s1 (fresh s)))" by simp
  ultimately have
    u: "updateCache P now (fresh s) ?s1 =
          (Inl InvalidCharacterError, ?s1\<lparr>cache := Some (fresh s), cacheTimestamp := JNum now\<rparr>)"
    by (rule updateCache_refused)
  from p obtain pv where
    v: "parse_stored P (localStorage s TASKS_KEY) = Inr pv" "validateAndCleanTasks pv = Inr xs"
    by (auto simp: primary_tasks_def split: sum.splits)
  show ?thesis
    using assms(1) u v by (simp add: read_primary_def getItem_def alloc_def)
qed

lemma cleaned_id_updatedAt:
  "read_field (cleaned (JObj kvs)) ''id'' = read_field (JObj kvs) ''id''"
  "read_field (cleaned (JObj kvs)) ''updatedAt'' = read_field (JObj kvs) ''updatedAt''"
  by (simp_all add: cleaned_def read_field_def get_prop_def spread_def update_conv')

lemma digest_text_cleaned:
  assumes "\<forall>t \<in> set ts. \<exists>kvs. t = JObj kvs"
  shows "digest_text (map cleaned ts) = digest_text ts"
proof -
  have "JObj [(''id'', read_field (cleaned t) ''id''),
              (''updatedAt'', read_field (cleaned t) ''updatedAt'')] =
        JObj [(''id'', read_field t ''id''), (''updatedAt'', read_field t ''updatedAt'')]"
    if "t \<in> set ts" for t
    using assms that cleaned_id_updatedAt by auto
  then show ?thesis
    by (simp add: digest_text_def del: ser.simps cong: map_cong)
qed

lemma well_shaped_obj: "well_shaped t \<Longrightarrow> \<exists>kvs. t = JObj kvs"
  by (cases t) (simp_all add: well_shaped_def)

lemma primary_tasks_spec:
  "(case primary_tasks P s of
      Inl _ \<Rightarrow> []
    | Inr xs \<Rightarrow> if beyond_latin1 P (digest_text xs) then [] else xs) =
   spec_primary_collection P s"
proof -
  have d: "digest_text (map cleaned (filter well_shaped records)) =
           digest_text (filter well_shaped records)" for records
    by (rule digest_text_cleaned) (simp add: well_shaped_obj)
  have "(case validateAndCleanTasks v of
           Inl _ \<Rightarrow> []
         | Inr xs \<Rightarrow> if beyond_latin1 P (digest_text xs) then [] else xs) =
        (case v of JArr records \<Rightarrow>
           (let kept = filter well_shaped records
            in if list_all optional_ok kept \<and> \<not> beyond_latin1 P (digest_text kept)
               then map cleaned kept else [])
         | _ \<Rightarrow> [])" for v
    by (cases v) (simp_all add: validateAndCleanTasks_array Let_def d,
        simp_all add: validateAndCleanTasks_def)
  then show ?thesis
    by (simp add: primary_tasks_def spec_primary_collection_def parse_stored_def digest_text_def
        split: option.splits)
qed

lemma read_primary_returned:
  assumes "storage_available P"
  shows "\<exists>res s1. read_primary P now s = (res, s1) \<and>
           (case res of Inl _ \<Rightarrow> spec_primary_collection P s = []
            | Inr r \<Rightarrow> heap s1 r = spec_primary_collection P s)"
proof (cases "primary_tasks P s")
  case (Inl e)
  from read_primary_fail [OF assms Inl] primary_tasks_spec [of P s] Inl
  show ?thesis by simp
next
  case (Inr xs)
  show ?thesis
  proof (cases "beyond_latin1 P (digest_text xs)")
    case True
    from read_primary_refused [OF assms Inr True, of now] primary_tasks_spec [of P s] Inr True
    show ?thesis by auto
  next
    case False
    from read_primary_ok [OF assms Inr False, of now] obtain s1 where
      "read_primary P now s = (Inr (fresh s), s1)" "heap s1 = (heap s)(fresh s := xs)" by blast
    moreover from primary_tasks_spec [of P s] Inr False have "xs = spec_primary_collection P s"
      by simp
    ultimately show ?thesis by simp
  qed
qed

lemma spec_primary_collection_cong:
  "localStorage s' TASKS_KEY = localStorage s TASKS_KEY \<Longrightarrow>
     spec_primary_collection P s' = spec_primary_collection P s"
  by (simp add: spec_primary_collection_def)

lemma getTasks_try_reaches_primary:
  assumes "storage_available P" "\<not> memory_hit P now s" "not_adopted P now s"
  shows "\<exists>s'. getTasks_try P now s = read_primary P now s' \<and>
              localStorage s' TASKS_KEY = localStorage s TASKS_KEY"
proof -
  have m: "(case cache s of None \<Rightarrow> None
            | Some r \<Rightarrow> if within_expiry P now (cacheTimestamp s) then Some r else None) = None"
    using assms(2) by (auto simp: memory_hit_def split: option.splits)
  show ?thesis
  proof (cases "localStorage s CACHE_KEY")
    case None
    with assms(1) m show ?thesis
      by (auto simp: getTasks_try_def getItem_def)
  next
    case (Some cd)
    show ?thesis
    proof (cases "cd = []")
      case True
      with Some assms(1) m show ?thesis
        by (auto simp: getTasks_try_def getItem_def)
    next
      case False
      show ?thesis
      proof (cases "adopt_secondary P now cd s")
        case (Inl e)
        let ?s' = "s\<lparr>localStorage := (localStorage s)(CACHE_KEY := None)\<rparr>"
        have "getTasks_try P now s = read_primary P now ?s'"
          using Some False Inl assms(1) m
          by (simp add: getTasks_try_def getItem_def removeItem_def)
        moreover have "localStorage ?s' TASKS_KEY = localStorage s TASKS_KEY"
          using keys_differ by simp
        ultimately show ?thesis by blast
      next
        case (Inr a)
        with assms(3) Some False have "a = None"
          by (cases a) (simp_all add: not_adopted_def)
        with Inr Some False assms(1) m show ?thesis
          by (auto simp: getTasks_try_def getItem_def)
      qed
    qed
  qed
qed

lemma getTasks_body_cold:
  assumes "reaches_primary P now s"
  shows "\<exists>r s1. getTasks_body P now s = (r, s1) \<and> heap s1 r = spec_primary_collection P s"
proof -
  from assms have w: "has_window P" and a: "storage_available P" and
    m: "\<not> memory_hit P now s" and n: "not_adopted P now s"
    by (simp_all add: reaches_primary_def)
  from getTasks_try_reaches_primary [OF a m n] obtain s' where
    t: "getTasks_try P now s = read_primary P now s'" and
    l: "localStorage s' TASKS_KEY = localStorage s TASKS_KEY" by blast
  from read_primary_returned [OF a, of now s'] obtain res s1 where
    r: "read_primary P now s' = (res, s1)" and
    c: "case res of Inl _ \<Rightarrow> spec_primary_collection P s' = []
        | Inr r \<Rightarrow> heap s1 r = spec_primary_collection P s'" by blast
  show ?thesis
  proof (cases res)
    case (Inl e)
    with w t r c spec_primary_collection_cong [OF l, of P] show ?thesis
      by (simp add: getTasks_body_def alloc_def)
  next
    case (Inr r')
    with w t r c spec_primary_collection_cong [OF l, of P] show ?thesis
      by (simp add: getTasks_body_def)
  qed
qed

lemma getTasks_body_storage_down:
  assumes "has_window P" "\<not> storage_available P" "\<not> memory_hit P now s"
  shows "\<exists>r s1. getTasks_body P now s = (r, s1) \<and> heap s1 r = []"
proof -
  have m: "(case cache s of None \<Rightarrow> None
            | Some r \<Rightarrow> if within_expiry P now (cacheTimestamp s) then Some r else None) = None"
    using assms(3) by (auto simp: memory_hit_def split: option.splits)
  show ?thesis
    using assms(1,2) m by (simp add: getTasks_body_def getTasks_try_def getItem_def alloc_def)
qed

lemma returned_getTasks_miss:
  assumes "\<not> memo_hit now s" "getTasks_body P now s = (r, s1)"
  shows "returned (getTasks P now s) = heap s1 r"
  using assms by (simp add: getTasks_unfold returned_def)

lemma getTasks_cold_returned:
  assumes r: "reaches_primary P now s"
  shows "returned (getTasks P now s) = spec_primary_collection P s"
proof -
  from r have "\<not> memo_hit now s" by (simp add: reaches_primary_def)
  with getTasks_body_cold [OF r] show ?thesis
    using returned_getTasks_miss [of now s P] by auto
qed

text \<open>
  C7, as amended.  \<^verbatim>\<open>getTasks\<close> never throws.  When storage cannot be reached and nothing is
  answered from memory it returns the empty collection.  When it falls through to the primary
  record it returns what the specification describes: nothing if the record is missing, empty,
  unparsable or not an array; otherwise the kept records in order, each with \<^verbatim>\<open>title\<close>,
  \<^verbatim>\<open>description\<close>, \<^verbatim>\<open>name\<close> and \<^verbatim>\<open>role\<close> trimmed and its other properties as stored, unless a
  kept record has a \<^verbatim>\<open>description\<close>, \<^verbatim>\<open>name\<close> or \<^verbatim>\<open>role\<close> that is neither a string nor
  \<^verbatim>\<open>null\<close> nor missing, or the \<^verbatim>\<open>id\<close> and \<^verbatim>\<open>updatedAt\<close> of the kept records hold a character
  above U+00FF (the checksum of the cache entry cannot be computed from them): in these two
  cases the whole read yields the empty collection.
\<close>

theorem getTasks_primary_read:
  "(\<exists>r s1. getTasks P now s = (Inr r, s1)) \<and>
   (has_window P \<and> \<not> storage_available P \<and> \<not> memo_hit now s \<and> \<not> memory_hit P now s \<longrightarrow>
      returned (getTasks P now s) = []) \<and>
   (reaches_primary P now s \<longrightarrow> returned (getTasks P now s) = spec_primary_collection P s)"
proof (intro conjI impI)
  show "\<exists>r s1. getTasks P now s = (Inr r, s1)"
    by (rule getTasks_never_throws)
next
  assume "has_window P \<and> \<not> storage_available P \<and> \<not> memo_hit now s \<and> \<not> memory_hit P now s"
  then show "returned (getTasks P now s) = []"
    using getTasks_body_storage_down [of P now s] returned_getTasks_miss [of now s P]
    by auto
next
  assume "reaches_primary P now s"
  then show "returned (getTasks P now s) = spec_primary_collection P s"
    by (rule getTasks_cold_returned)
qed

lemma ser_array_nonempty: "ser (JArr xs) \<noteq> []"
  by simp

lemma parse_table_hit: "parse_table (d # ds) (ser d) = Some d"
  by (simp add: parse_table_def)

lemma demo_latin1:
  "\<not> beyond_latin1 P_demo text" "\<not> beyond_latin1 P_bad text" "\<not> beyond_latin1 P_tamper text"
  "\<not> beyond_latin1 P_restamp text"
  by (simp_all add: P_demo_def P_bad_def P_tamper_def P_restamp_def)

lemma s_cold_reaches: "reaches_primary P_demo now s_cold"
  by (simp add: reaches_primary_def P_demo_def s_cold_def memo_hit_def memory_hit_def
      not_adopted_def CACHE_KEY_def TASKS_KEY_def)

lemma demo_well_shaped: "well_shaped task_a" "well_shaped task_b" "well_shaped task_bad"
  by (simp_all add: well_shaped_def task_a_def task_b_def task_bad_def str_at_def bool_at_def)

lemma demo_optional_ok: "optional_ok task_a" "optional_ok task_b" "\<not> optional_ok task_bad"
  by (simp_all add: optional_ok_def task_a_def task_b_def task_bad_def read_field_def get_prop_def)

lemma dropWhile_hd: "s \<noteq> [] \<Longrightarrow> \<not> Q (hd s) \<Longrightarrow> dropWhile Q s = s"
  by (cases s) simp_all

lemma trim_plain:
  assumes "s \<noteq> []" "\<not> is_space (hd s)" "\<not> is_space (last s)"
  shows "trim s = s"
proof -
  have "dropWhile is_space s = s" using assms(1,2) by (rule dropWhile_hd)
  moreover have "dropWhile is_space (rev s) = rev s"
    using assms(1,3) by (intro dropWhile_hd) (simp_all add: hd_rev)
  ultimately show ?thesis by (simp add: trim_def)
qed

lemma trim_empty: "trim [] = []"
  by (simp add: trim_def)

lemma demo_cleaned: "cleaned task_a = task_a" "cleaned task_b = task_b"
  by (simp_all add: cleaned_def task_a_def task_b_def read_field_def get_prop_def spread_def
      text_or_empty_def trim_plain trim_empty is_space_def)

lemma s_cold_primary: "spec_primary_collection P_demo s_cold = [task_a, task_b]"
proof -
  have "localStorage s_cold TASKS_KEY = Some (ser (JArr [task_a, task_b]))"
    by (simp add: s_cold_def)
  moreover have "JSON_parse P_demo (ser (JArr [task_a, task_b])) = Some (JArr [task_a, task_b])"
    by (simp add: P_demo_def parse_table_hit del: ser.simps)
  ultimately show ?thesis
    by (simp add: spec_primary_collection_def ser_array_nonempty demo_well_shaped
        demo_optional_ok demo_cleaned demo_latin1 del: ser.simps)
qed

lemma s_messy_reaches: "reaches_primary P_messy 1705312400000 s_messy"
  by code_simp

lemma s_messy_primary: "spec_primary_collection P_messy s_messy = [task_tidy, task_b]"
  by code_simp

lemma s_wide_reaches: "reaches_primary P_wide 1705312400000 s_wide"
  by code_simp

lemma s_wide_primary:
  "well_shaped task_wide" "optional_ok task_wide"
  "beyond_latin1 P_wide (digest_text [task_a, task_wide])"
  "spec_primary_collection P_wide s_wide = []"
  by code_simp+

theorem getTasks_primary_read_witness:
  "localStorage s_messy TASKS_KEY =
     Some (ser (JArr [task_messy, record_numbered, JNull, task_b])) \<and>
   returned (getTasks P_messy 1705312400000 s_messy) = [task_tidy, task_b] \<and>
   localStorage s_wide TASKS_KEY = Some (ser (JArr [task_a, task_wide])) \<and>
   well_shaped task_wide \<and> optional_ok task_wide \<and>
   beyond_latin1 P_wide (digest_text [task_a, task_wide]) \<and>
   returned (getTasks P_wide 1705312400000 s_wide) = [] \<and>
   returned (getTasks P_down 1705312400000 s_cold) = []"
proof -
  have d: "has_window P_down \<and> \<not> storage_available P_down \<and>
           \<not> memo_hit 1705312400000 s_cold \<and> \<not> memory_hit P_down 1705312400000 s_cold"
    by (simp add: P_down_def P_demo_def s_cold_def memo_hit_def memory_hit_def)
  from getTasks_primary_read [of P_messy 1705312400000 s_messy] s_messy_reaches s_messy_primary
  have 1: "returned (getTasks P_messy 1705312400000 s_messy) = [task_tidy, task_b]" by simp
  from getTasks_primary_read [of P_wide 1705312400000 s_wide] s_wide_reaches s_wide_primary(4)
  have 2: "returned (getTasks P_wide 1705312400000 s_wide) = []" by simp
  from getTasks_primary_read [of P_down 1705312400000 s_cold] d
  have 3: "returned (getTasks P_down 1705312400000 s_cold) = []" by simp
  from s_wide_primary(1,2) have 4: "well_shaped task_wide \<and> optional_ok task_wide" by blast
  have 5: "localStorage s_messy TASKS_KEY =
             Some (ser (JArr [task_messy, record_numbered, JNull, task_b]))"
    "localStorage s_wide TASKS_KEY = Some (ser (JArr [task_a, task_wide]))"
    by (simp_all add: s_messy_def s_wide_def stored_messy_def del: ser.simps)
  from 1 2 3 4 5 s_wide_primary(3) show ?thesis by (simp del: ser.simps)
qed

lemma s_bad_reaches: "reaches_primary P_bad now s_bad"
  by (simp add: reaches_primary_def P_bad_def P_demo_def s_bad_def s_cold_def memo_hit_def
      memory_hit_def not_adopted_def CACHE_KEY_def TASKS_KEY_def)

lemma s_bad_primary: "spec_primary_collection P_bad s_bad = []"
proof -
  have "localStorage s_bad TASKS_KEY = Some (ser (JArr [task_a, task_bad]))"
    by (simp add: s_bad_def)
  moreover have "JSON_parse P_bad (ser (JArr [task_a, task_bad])) = Some (JArr [task_a, task_bad])"
    by (simp add: P_bad_def parse_table_hit del: ser.simps)
  ultimately show ?thesis
    by (simp add: spec_primary_collection_def ser_array_nonempty demo_well_shaped
        demo_optional_ok del: ser.simps)
qed

theorem kept_records_not_returned_counterexample:
  "valid_shape task_a \<and> valid_shape task_bad \<and>
   localStorage s_bad TASKS_KEY = Some (ser (JArr [task_a, task_bad])) \<and>
   JSON_parse P_bad (ser (JArr [task_a, task_bad])) = Some (JArr [task_a, task_bad]) \<and>
   returned (getTasks P_bad 1705312400000 s_bad) = []"
  using getTasks_cold_returned [OF s_bad_reaches, of 1705312400000] s_bad_primary
  by (simp add: valid_shape_iff demo_well_shaped s_bad_def P_bad_def parse_table_hit
      del: ser.simps)

subsection \<open>The not-found case on the example data\<close>

lemma updateTask_not_found:
  "getTasks P now s = (Inr r, s1) \<Longrightarrow> findIndex_id (heap s1 r) taskId = Inr None \<Longrightarrow>
     updateTask P now taskId updates s = (Inr JNull, s1)"
  by (simp add: updateTask_def)

lemma deleteTask_not_found:
  "getTasks P now s = (Inr r, s1) \<Longrightarrow> findIndex_id (heap s1 r) taskId = Inr None \<Longrightarrow>
     deleteTask P now taskId s = (Inr False, s1)"
  by (simp add: deleteTask_def)

lemma s_warm_hit: "0 \<le> now - 1705312200123 \<Longrightarrow> now - 1705312200123 < 600000 \<Longrightarrow> memo_hit now s_warm"
  by (simp add: memo_hit_def s_warm_def CACHE_EXPIRY_def)

lemma s_warm_read':
  "0 \<le> now - 1705312200123 \<Longrightarrow> now - 1705312200123 < 600000 \<Longrightarrow>
     getTasks P_demo now s_warm = (Inr 0, s_warm)"
  by (simp add: getTasks_unfold s_warm_hit) (simp add: s_warm_def)

lemma s_warm_read: "getTasks P_demo 1705312400000 s_warm = (Inr 0, s_warm)"
  by (simp add: s_warm_read')

lemma demo_tasks: "is_task task_a" "is_task task_b"
  by (simp_all add: is_task_def task_a_def task_b_def read_field_def get_prop_def typeof_def)

lemma demo_ids: "has_id i task_a = (i = ''a1'')" "has_id i task_b = (i = ''b2'')"
  by (auto simp: has_id_def task_a_def task_b_def read_field_def get_prop_def)

lemma s_warm_heap: "heap s_warm 0 = [task_a, task_b]"
  by (simp add: s_warm_def)

lemma updateCache_writes:
  assumes "\<forall>t \<in> set (heap s r). \<exists>kvs. t = JObj kvs" "storage_available P"
    and "\<forall>v. \<not> quota_exceeded P CACHE_KEY v" and "\<forall>text. \<not> beyond_latin1 P text"
  shows "\<exists>s1 c. updateCache P now r s = (Inr (), s1) \<and> localStorage s1 CACHE_KEY = Some c"
  using checksum_of_objects [OF assms(1), of P] assms(2,3,4)
  by (simp add: updateCache_def Let_def setItem_def btoa_def)

lemma read_primary_writes:
  assumes "storage_available P" "\<forall>v. \<not> quota_exceeded P CACHE_KEY v"
    and "\<forall>text. \<not> beyond_latin1 P text"
    and p: "primary_tasks P s = Inr xs"
  shows "\<exists>r s1 c. read_primary P now s = (Inr r, s1) \<and> localStorage s1 CACHE_KEY = Some c"
proof -
  let ?s1 = "s\<lparr>heap := (heap s)(fresh s := xs), fresh := Suc (fresh s)\<rparr>"
  from primary_tasks_objects [OF p] have "\<forall>t \<in> set (heap ?s1 (fresh s)). \<exists>kvs. t = JObj kvs"
    by simp
  from updateCache_writes [OF this assms(1,2,3)] obtain s2 c where
    u: "updateCache P now (fresh s) ?s1 = (Inr (), s2)" "localStorage s2 CACHE_KEY = Some c"
    by blast
  from p obtain pv where
    v: "parse_stored P (localStorage s TASKS_KEY) = Inr pv" "validateAndCleanTasks pv = Inr xs"
    by (auto simp: primary_tasks_def split: sum.splits)
  show ?thesis
    using assms(1) u v by (simp add: read_primary_def getItem_def alloc_def)
qed

lemma s_cold_primary_tasks: "primary_tasks P_demo s_cold = Inr [task_a, task_b]"
proof -
  have "localStorage s_cold TASKS_KEY = Some (ser (JArr [task_a, task_b]))"
    by (simp add: s_cold_def)
  moreover have "JSON_parse P_demo (ser (JArr [task_a, task_b])) = Some (JArr [task_a, task_b])"
    by (simp add: P_demo_def parse_table_hit del: ser.simps)
  ultimately show ?thesis
    by (simp add: primary_tasks_def parse_stored_def ser_array_nonempty
        validateAndCleanTasks_array demo_well_shaped demo_optional_ok demo_cleaned
        del: ser.simps)
qed

lemma s_cold_read_writes:
  "\<exists>r s1 c. getTasks P_demo 1705312400000 s_cold = (Inr r, s1) \<and>
     localStorage s1 CACHE_KEY = Some c"
proof -
  have a: "storage_available P_demo" "\<forall>v. \<not> quota_exceeded P_demo CACHE_KEY v"
    "\<forall>text. \<not> beyond_latin1 P_demo text"
    by (simp_all add: P_demo_def)
  from read_primary_writes [OF a s_cold_primary_tasks, of 1705312400000] obtain r s1 c where
    r: "read_primary P_demo 1705312400000 s_cold = (Inr r, s1)" "localStorage s1 CACHE_KEY = Some c"
    by blast
  have t: "getTasks_try P_demo 1705312400000 s_cold = read_primary P_demo 1705312400000 s_cold"
    by (simp add: getTasks_try_def getItem_def s_cold_def P_demo_def CACHE_KEY_def TASKS_KEY_def)
  have m: "\<not> memo_hit 1705312400000 s_cold"
    by (simp add: memo_hit_def s_cold_def)
  have w: "has_window P_demo" by (simp add: P_demo_def)
  show ?thesis
    using r t m w by (simp add: getTasks_unfold getTasks_body_def)
qed

theorem not_found_leaves_primary_record_witness:
  "updateTask P_demo 1705312400000 ''ghost'' [(''isCompleted'', JBool True)] s_warm =
     (Inr JNull, s_warm) \<and>
   deleteTask P_demo 1705312400000 ''ghost'' s_warm = (Inr False, s_warm)"
proof -
  have a: "\<forall>t \<in> set (heap s_warm 0). is_task t \<and> \<not> has_id ''ghost'' t"
    by (simp add: s_warm_heap demo_tasks demo_ids)
  from not_found_leaves_primary_record [OF s_warm_read a] show ?thesis by blast
qed

theorem not_found_read_writes_storage_counterexample:
  "returned (getTasks P_demo 1705312400000 s_cold) = [task_a, task_b] \<and>
   \<not> has_id ''ghost'' task_a \<and> \<not> has_id ''ghost'' task_b \<and>
   fst (deleteTask P_demo 1705312400000 ''ghost'' s_cold) = Inr False \<and>
   localStorage s_cold CACHE_KEY = None \<and>
   localStorage (snd (deleteTask P_demo 1705312400000 ''ghost'' s_cold)) CACHE_KEY \<noteq> None"
proof -
  from s_cold_read_writes obtain r s1 c where
    g: "getTasks P_demo 1705312400000 s_cold = (Inr r, s1)" and
    c: "localStorage s1 CACHE_KEY = Some c" by blast
  have ret: "returned (getTasks P_demo 1705312400000 s_cold) = [task_a, task_b]"
    using getTasks_cold_returned [OF s_cold_reaches, of 1705312400000] s_cold_primary by simp
  with g have h: "heap s1 r = [task_a, task_b]" by (simp add: returned_def)
  then have "\<forall>t \<in> set (heap s1 r). is_task t \<and> \<not> has_id ''ghost'' t"
    by (simp add: demo_tasks demo_ids)
  then have "findIndex_id (heap s1 r) ''ghost'' = Inr None" by (rule findIndex_none)
  from deleteTask_not_found [OF g this] c ret show ?thesis
    by (simp add: demo_ids s_cold_def CACHE_KEY_def TASKS_KEY_def)
qed

subsection \<open>Updating a task\<close>

lemma saveTasksImmediate_primary_cases:
  "localStorage (saveTasksImmediate P now r s) TASKS_KEY = localStorage s TASKS_KEY \<or>
   localStorage (saveTasksImmediate P now r s) TASKS_KEY = Some (ser (JArr (heap s r)))"
proof (cases "has_window P \<and> storage_available P \<and> \<not> quota_exceeded P TASKS_KEY (ser (JArr (heap s r)))")
  case True
  then show ?thesis by (simp add: saveTasksImmediate_primary)
next
  case False
  then show ?thesis by (auto simp: saveTasksImmediate_def setItem_def)
qed

lemma updateTask_found:
  assumes g: "getTasks P now s = (Inr r, s1)"
    and f: "findIndex_id (heap s1 r) taskId = Inr (Some n)"
  shows "updateTask P now taskId updates s =
     (let cur = heap s1 r ! n; upd = merge_task now cur updates
      in if \<not> hasChanges cur upd updates then (Inr cur, s1)
         else (Inr upd, saveTasksImmediate P now r
                          (s1\<lparr>heap := (heap s1)(r := (heap s1 r)[n := upd])\<rparr>)))"
  using g f by (simp add: updateTask_def Let_def)

lemma foldl_update_other:
  "k \<notin> fst ` set ups \<Longrightarrow>
     map_of (foldl (\<lambda>obj kv. AList.update (fst kv) (snd kv) obj) obj ups) k = map_of obj k"
  by (induction ups arbitrary: obj) (auto simp: update_conv')

lemma foldl_update_key:
  "distinct (map fst ups) \<Longrightarrow> (k, v) \<in> set ups \<Longrightarrow>
     map_of (foldl (\<lambda>obj kv. AList.update (fst kv) (snd kv) obj) obj ups) k = Some v"
proof (induction ups arbitrary: obj)
  case Nil
  then show ?case by simp
next
  case (Cons kv ups)
  show ?case
  proof (cases "(k, v) = kv")
    case True
    with Cons.prems have "k \<notin> fst ` set ups" by force
    from foldl_update_other [OF this] True show ?thesis
      by (auto simp: update_conv')
  next
    case False
    with Cons show ?thesis by simp
  qed
qed

lemma read_field_obj: "read_field (JObj kvs) k = (case map_of kvs k of None \<Rightarrow> JUndef | Some x \<Rightarrow> x)"
  by (simp add: read_field_def get_prop_def)

lemma merge_task_stamp:
  "read_field (merge_task now cur ups) ''updatedAt'' = JStr (toISOString now)"
  by (simp add: merge_task_def read_field_obj update_conv')

lemma merge_task_patched:
  assumes "distinct (map fst ups)" "(k, v) \<in> set ups" "k \<noteq> ''updatedAt''"
  shows "read_field (merge_task now cur ups) k = v"
  using assms foldl_update_key [OF assms(1,2)]
  by (simp add: merge_task_def read_field_obj update_conv')

lemma merge_task_other:
  assumes "k \<notin> fst ` set ups" "k \<noteq> ''updatedAt''"
  shows "read_field (merge_task now (JObj kvs) ups) k = read_field (JObj kvs) k"
  using assms foldl_update_other [OF assms(1)]
  by (simp add: merge_task_def read_field_obj update_conv' spread_def)

lemma strict_eq_primitive: "primitive b \<Longrightarrow> strict_eq a b = (a = b)"
  by (cases a; cases b) (auto simp: strict_eq_def primitive_def)

lemma hasChanges_iff:
  assumes d: "distinct (map fst ups)" and u: "''updatedAt'' \<notin> fst ` set ups"
    and p: "\<forall>v \<in> snd ` set ups. primitive v"
  shows "hasChanges cur (merge_task now cur ups) ups =
           (\<exists>kv \<in> set ups. read_field cur (fst kv) \<noteq> snd kv)"
proof -
  have "\<not> strict_eq (read_field cur (fst kv)) (read_field (merge_task now cur ups) (fst kv)) =
        (read_field cur (fst kv) \<noteq> snd kv)" if kv: "kv \<in> set ups" for kv
  proof -
    from kv have "fst kv \<in> fst ` set ups" by (rule imageI)
    with u have "fst kv \<noteq> ''updatedAt''" by metis
    with merge_task_patched [OF d, of "fst kv" "snd kv" now cur] kv
    have "read_field (merge_task now cur ups) (fst kv) = snd kv" by simp
    moreover from kv have "snd kv \<in> snd ` set ups" by (rule imageI)
    with p have "primitive (snd kv)" by blast
    ultimately show ?thesis by (simp add: strict_eq_primitive)
  qed
  then show ?thesis
    by (auto simp: hasChanges_def list_ex_iff)
qed


lemma first_match:
  assumes tasks: "\<forall>t \<in> set xs. is_task t" and f: "findIndex_id xs taskId = Inr (Some n)"
  shows "n < length xs \<and> has_id taskId (xs ! n) \<and> (\<forall>j < n. \<not> has_id taskId (xs ! j))"
proof -
  from findIndex_some [OF f] have n: "n < length xs"
    and idn: "get_prop (xs ! n) ''id'' = Inr (JStr taskId)"
    and first: "\<forall>j < n. get_prop (xs ! j) ''id'' \<noteq> Inr (JStr taskId)"
    by simp_all
  from idn have hid: "has_id taskId (xs ! n)"
    by (simp add: has_id_def read_field_def)
  have "\<forall>j < n. \<not> has_id taskId (xs ! j)"
  proof (intro allI impI)
    fix j assume j: "j < n"
    with n tasks have "is_task (xs ! j)" by simp
    from get_prop_task [OF this, of "''id''"] first j
    show "\<not> has_id taskId (xs ! j)"
      by (auto simp: has_id_def)
  qed
  with n hid show ?thesis by simp
qed

text \<open>
  C1, as amended.  Let the collection hold a task with the given id, and let the patch name
  each field once, not name \<^verbatim>\<open>updatedAt\<close>, and carry strings, booleans, numbers, \<^verbatim>\<open>null\<close> or
  \<^verbatim>\<open>undefined\<close>.  If every patched field equals the current value, \<^verbatim>\<open>updateTask\<close> returns the
  current task itself and leaves the service as the read left it: the primary record is not
  written, and nothing durable changes when the read was answered from memory.  If some
  patched field differs, it returns the task with the patched fields applied, \<^verbatim>\<open>updatedAt\<close>
  set to the ISO text of the current time and every other field kept, puts it in place of the
  old one, and, when the window exists and storage accepts the write, the primary record is
  the text of the updated collection.
\<close>

theorem updateTask_noop_or_stamp:
  assumes g: "getTasks P now s = (Inr r, s1)"
    and tasks: "\<forall>t \<in> set (heap s1 r). is_task t"
    and found: "\<exists>t \<in> set (heap s1 r). has_id taskId t"
    and d: "distinct (map fst updates)" and u: "''updatedAt'' \<notin> fst ` set updates"
    and p: "\<forall>v \<in> snd ` set updates. primitive v"
  shows "\<exists>n. n < length (heap s1 r) \<and> has_id taskId (heap s1 r ! n) \<and>
           (\<forall>j < n. \<not> has_id taskId (heap s1 r ! j)) \<and>
           ((\<forall>kv \<in> set updates. read_field (heap s1 r ! n) (fst kv) = snd kv) \<longrightarrow>
              updateTask P now taskId updates s = (Inr (heap s1 r ! n), s1) \<and>
              localStorage s1 TASKS_KEY = localStorage s TASKS_KEY \<and>
              (memo_hit now s \<or> memory_hit P now s \<longrightarrow> localStorage s1 = localStorage s)) \<and>
           ((\<exists>kv \<in> set updates. read_field (heap s1 r ! n) (fst kv) \<noteq> snd kv) \<longrightarrow>
              (\<exists>t' s'. updateTask P now taskId updates s = (Inr t', s') \<and>
                 (\<forall>kv \<in> set updates. read_field t' (fst kv) = snd kv) \<and>
                 read_field t' ''updatedAt'' = JStr (toISOString now) \<and>
                 (\<forall>k. k \<notin> fst ` set updates \<and> k \<noteq> ''updatedAt'' \<longrightarrow>
                      read_field t' k = read_field (heap s1 r ! n) k) \<and>
                 heap s' r = (heap s1 r)[n := t'] \<and>
                 (has_window P \<and> storage_available P \<and>
                  \<not> quota_exceeded P TASKS_KEY (ser (JArr (heap s' r))) \<longrightarrow>
                    localStorage s' TASKS_KEY = Some (ser (JArr (heap s' r))))))"
proof -
  from findIndex_found [OF tasks found] obtain n where
    f: "findIndex_id (heap s1 r) taskId = Inr (Some n)" by blast
  note fm = first_match [OF tasks f]
  let ?cur = "heap s1 r ! n"
  let ?upd = "merge_task now ?cur updates"
  from fm tasks have "is_task ?cur" by simp
  then obtain kvs where cur: "?cur = JObj kvs" using is_task_obj by blast
  note hc = hasChanges_iff [OF d u p, of ?cur now]
  have same: "updateTask P now taskId updates s = (Inr ?cur, s1) \<and>
              localStorage s1 TASKS_KEY = localStorage s TASKS_KEY \<and>
              (memo_hit now s \<or> memory_hit P now s \<longrightarrow> localStorage s1 = localStorage s)"
    if "\<forall>kv \<in> set updates. read_field ?cur (fst kv) = snd kv"
    using that hc updateTask_found [OF g f, of updates] getTasks_primary_unchanged [OF g]
      getTasks_from_memory [OF g]
    by (auto simp: Let_def)
  have diff: "\<exists>t' s'. updateTask P now taskId updates s = (Inr t', s') \<and>
                 (\<forall>kv \<in> set updates. read_field t' (fst kv) = snd kv) \<and>
                 read_field t' ''updatedAt'' = JStr (toISOString now) \<and>
                 (\<forall>k. k \<notin> fst ` set updates \<and> k \<noteq> ''updatedAt'' \<longrightarrow>
                      read_field t' k = read_field ?cur k) \<and>
                 heap s' r = (heap s1 r)[n := t'] \<and>
                 (has_window P \<and> storage_available P \<and>
                  \<not> quota_exceeded P TASKS_KEY (ser (JArr (heap s' r))) \<longrightarrow>
                    localStorage s' TASKS_KEY = Some (ser (JArr (heap s' r))))"
    if c: "\<exists>kv \<in> set updates. read_field ?cur (fst kv) \<noteq> snd kv"
  proof -
    let ?s2 = "s1\<lparr>heap := (heap s1)(r := (heap s1 r)[n := ?upd])\<rparr>"
    let ?s' = "saveTasksImmediate P now r ?s2"
    from c hc updateTask_found [OF g f, of updates]
    have upd: "updateTask P now taskId updates s = (Inr ?upd, ?s')" by (simp add: Let_def)
    have h: "heap ?s' r = (heap s1 r)[n := ?upd]"
      by (simp add: saveTasksImmediate_heap)
    have pat: "\<forall>kv \<in> set updates. read_field ?upd (fst kv) = snd kv"
    proof
      fix kv assume kv: "kv \<in> set updates"
      then have "fst kv \<in> fst ` set updates" by (rule imageI)
      with u have "fst kv \<noteq> ''updatedAt''" by metis
      with merge_task_patched [OF d, of "fst kv" "snd kv" now ?cur] kv
      show "read_field ?upd (fst kv) = snd kv" by simp
    qed
    have oth: "\<forall>k. k \<notin> fst ` set updates \<and> k \<noteq> ''updatedAt'' \<longrightarrow>
                 read_field ?upd k = read_field ?cur k"
      using merge_task_other [of _ updates now kvs] cur by simp
    have sto: "has_window P \<and> storage_available P \<and>
               \<not> quota_exceeded P TASKS_KEY (ser (JArr (heap ?s' r))) \<longrightarrow>
               localStorage ?s' TASKS_KEY = Some (ser (JArr (heap ?s' r)))"
      using saveTasksImmediate_primary [of P ?s2 r now] h by simp
    from upd h pat oth sto merge_task_stamp [of now ?cur updates] show ?thesis
      by (intro exI [of _ ?upd] exI [of _ ?s']) simp
  qed
  from fm same diff show ?thesis
    by (intro exI [of _ n]) blast
qed


lemma iso_example: "toISOString 1705312200123 = ''2024-01-15T09:50:00.123Z''"
  by code_simp

subsection \<open>Updating on the example data\<close>

lemma s_warm_tasks: "\<forall>t \<in> set (heap s_warm 0). is_task t"
  by (simp add: s_warm_heap demo_tasks)

lemma s_warm_first: "n < length (heap s_warm 0) \<Longrightarrow> has_id ''a1'' (heap s_warm 0 ! n) \<Longrightarrow> n = 0"
  by (cases n) (simp_all add: s_warm_heap demo_ids)

lemma s_warm_found: "\<exists>t \<in> set (heap s_warm 0). has_id ''a1'' t"
  by (simp add: s_warm_heap demo_ids)

theorem updateTask_noop_or_stamp_witness:
  "updateTask P_demo 1705312400000 ''a1'' [(''isCompleted'', JBool False)] s_warm =
     (Inr task_a, s_warm) \<and>
   (\<exists>t' s'. updateTask P_demo 1705312400000 ''a1'' [(''isCompleted'', JBool True)] s_warm =
              (Inr t', s') \<and>
            read_field t' ''isCompleted'' = JBool True \<and>
            read_field t' ''updatedAt'' = JStr (toISOString 1705312400000) \<and>
            read_field t' ''title'' = JStr ''Buy groceries'' \<and>
            heap s' 0 = [t', task_b] \<and>
            localStorage s' TASKS_KEY = Some (ser (JArr [t', task_b])))"
proof -
  have k: "distinct (map fst [(''isCompleted'', JBool b)])"
    "''updatedAt'' \<notin> fst ` set [(''isCompleted'', JBool b)]"
    "\<forall>v \<in> snd ` set [(''isCompleted'', JBool b)]. primitive v" for b
    by (simp_all add: primitive_def)
  have c: "read_field task_a ''isCompleted'' = JBool False"
    "read_field task_a ''title'' = JStr ''Buy groceries''"
    by (simp_all add: task_a_def read_field_def get_prop_def)
  have w: "has_window P_demo" "storage_available P_demo" "\<And>v. \<not> quota_exceeded P_demo TASKS_KEY v"
    by (simp_all add: P_demo_def)
  from updateTask_noop_or_stamp [OF s_warm_read s_warm_tasks s_warm_found k, of False]
  obtain n where n: "n < length (heap s_warm 0)" "has_id ''a1'' (heap s_warm 0 ! n)"
    and same: "(\<forall>kv \<in> set [(''isCompleted'', JBool False)].
                  read_field (heap s_warm 0 ! n) (fst kv) = snd kv) \<longrightarrow>
               updateTask P_demo 1705312400000 ''a1'' [(''isCompleted'', JBool False)] s_warm =
                 (Inr (heap s_warm 0 ! n), s_warm)"
    by blast
  from s_warm_first [OF n] same c have first: "updateTask P_demo 1705312400000 ''a1''
      [(''isCompleted'', JBool False)] s_warm = (Inr task_a, s_warm)"
    by (simp add: s_warm_heap)
  from updateTask_noop_or_stamp [OF s_warm_read s_warm_tasks s_warm_found k, of True]
  obtain m where m: "m < length (heap s_warm 0)" "has_id ''a1'' (heap s_warm 0 ! m)"
    and diff: "(\<exists>kv \<in> set [(''isCompleted'', JBool True)].
                  read_field (heap s_warm 0 ! m) (fst kv) \<noteq> snd kv) \<longrightarrow>
        (\<exists>t' s'. updateTask P_demo 1705312400000 ''a1'' [(''isCompleted'', JBool True)] s_warm =
                    (Inr t', s') \<and>
           (\<forall>kv \<in> set [(''isCompleted'', JBool True)]. read_field t' (fst kv) = snd kv) \<and>
           read_field t' ''updatedAt'' = JStr (toISOString 1705312400000) \<and>
           (\<forall>k. k \<notin> fst ` set [(''isCompleted'', JBool True)] \<and> k \<noteq> ''updatedAt'' \<longrightarrow>
                read_field t' k = read_field (heap s_warm 0 ! m) k) \<and>
           heap s' 0 = (heap s_warm 0)[m := t'] \<and>
           (has_window P_demo \<and> storage_available P_demo \<and>
            \<not> quota_exceeded P_demo TASKS_KEY (ser (JArr (heap s' 0))) \<longrightarrow>
              localStorage s' TASKS_KEY = Some (ser (JArr (heap s' 0)))))"
    by blast
  from s_warm_first [OF m] have m0: "m = 0" .
  from diff c m0 obtain t' s' where
    u: "updateTask P_demo 1705312400000 ''a1'' [(''isCompleted'', JBool True)] s_warm = (Inr t', s')"
    and f: "read_field t' ''isCompleted'' = JBool True"
      "read_field t' ''updatedAt'' = JStr (toISOString 1705312400000)"
      "read_field t' ''title'' = read_field task_a ''title''"
    and h: "heap s' 0 = [t', task_b]"
    and l: "localStorage s' TASKS_KEY = Some (ser (JArr (heap s' 0)))"
    using w by (auto simp: s_warm_heap simp del: ser.simps)
  from first u f h l c show ?thesis
    by (auto simp del: ser.simps)
qed

lemma s_warm_read_same_ms: "getTasks P_demo 1705312200123 s_warm = (Inr 0, s_warm)"
  by (simp add: s_warm_read')

theorem updateTask_same_millisecond_counterexample:
  "read_field task_a ''isCompleted'' \<noteq> JBool True \<and>
   (case fst (updateTask P_demo 1705312200123 ''a1'' [(''isCompleted'', JBool True)] s_warm) of
      Inl _ \<Rightarrow> False
    | Inr t' \<Rightarrow> read_field t' ''isCompleted'' = JBool True \<and>
               read_field t' ''updatedAt'' = read_field task_a ''updatedAt'')"
proof -
  have f: "findIndex_id (heap s_warm 0) ''a1'' = Inr (Some 0)"
    by (simp add: s_warm_heap task_a_def get_prop_def strict_eq_def)
  have c: "read_field task_a ''isCompleted'' = JBool False"
    "read_field task_a ''updatedAt'' = JStr ''2024-01-15T09:50:00.123Z''"
    by (simp_all add: task_a_def read_field_def get_prop_def)
  have m: "read_field (merge_task 1705312200123 task_a [(''isCompleted'', JBool True)])
             ''isCompleted'' = JBool True"
    by (simp add: merge_task_def task_a_def spread_def read_field_def get_prop_def)
  have h: "hasChanges task_a (merge_task 1705312200123 task_a [(''isCompleted'', JBool True)])
             [(''isCompleted'', JBool True)]"
    using c m by (simp add: hasChanges_def strict_eq_def)
  from updateTask_found [OF s_warm_read_same_ms f, of "[(''isCompleted'', JBool True)]"] h
  have "fst (updateTask P_demo 1705312200123 ''a1'' [(''isCompleted'', JBool True)] s_warm) =
        Inr (merge_task 1705312200123 task_a [(''isCompleted'', JBool True)])"
    by (simp add: Let_def s_warm_heap)
  with c m merge_task_stamp [of 1705312200123 task_a "[(''isCompleted'', JBool True)]"] iso_example
  show ?thesis by simp
qed

subsection \<open>Replacing a task in place\<close>




















subsection \<open>Trimming and splitting a query\<close>

lemma lower_char_space: "is_space (lower_char c) = is_space c"
proof -
  have "of_char (char_of (of_char c + 32 :: nat)) = (of_char c + 32 :: nat)" if "(of_char c :: nat) \<le> 222"
    using that by (simp add: of_char_of)
  then show ?thesis
    by (auto simp: lower_char_def is_space_def Let_def)
qed

lemma dropWhile_all: "(dropWhile Q s = []) = (\<forall>c \<in> set s. Q c)"
  by (induction s) auto

lemma dropWhile_all_iff: "(\<forall>c \<in> set (dropWhile Q s). Q c) = (\<forall>c \<in> set s. Q c)"
  by (induction s) auto

lemma trim_empty_iff: "(trim s = []) = (\<forall>c \<in> set s. is_space c)"
  by (simp add: trim_def dropWhile_all dropWhile_all_iff)

lemma trim_lower_empty: "(trim (toLowerCase s) = []) = (trim s = [])"
  by (simp add: trim_empty_iff toLowerCase_def lower_char_space)

lemma trim_ends:
  assumes "trim s \<noteq> []"
  shows "\<not> is_space (hd (trim s)) \<and> \<not> is_space (last (trim s))"
proof -
  let ?a = "dropWhile is_space s"
  let ?b = "dropWhile is_space (rev ?a)"
  from assms have b: "?b \<noteq> []" by (simp add: trim_def)
  then have hb: "\<not> is_space (hd ?b)" by (rule hd_dropWhile)
  from b have a: "?a \<noteq> []" by (metis dropWhile.simps(1) rev.simps(1))
  then have ha: "\<not> is_space (hd ?a)" by (rule hd_dropWhile)
  have "rev ?a = takeWhile is_space (rev ?a) @ ?b" by simp
  then have "?a = rev ?b @ rev (takeWhile is_space (rev ?a))"
    by (metis rev_append rev_rev_ident)
  with b have "hd ?a = hd (rev ?b)" by (metis hd_append2 rev_is_Nil_conv)
  with ha hb b show ?thesis
    by (simp add: trim_def last_rev)
qed

lemma split_ws_nonempty: "split_ws s \<noteq> []"
proof (induction s)
  case Nil
  then show ?case by simp
next
  case (Cons c cs)
  then show ?case by (cases cs; cases "split_ws cs") auto
qed

lemma split_ws_word:
  "\<not> is_space c \<Longrightarrow> split_ws (c # cs) = (c # hd (split_ws cs)) # tl (split_ws cs)"
  using split_ws_nonempty [of cs] by (cases "split_ws cs") auto

lemma split_ws_space1: "is_space c \<Longrightarrow> split_ws [c] = [[], []]"
  by simp

lemma split_ws_space2:
  "is_space c \<Longrightarrow> split_ws (c # d # ds) = (if is_space d then split_ws (d # ds) else [] # split_ws (d # ds))"
  by simp

lemma split_ws_space_cons:
  "is_space c \<Longrightarrow> cs \<noteq> [] \<Longrightarrow>
     split_ws (c # cs) = split_ws cs \<or> split_ws (c # cs) = [] # split_ws cs"
  by (cases cs) simp_all

lemmas split_ws_eqs = split_ws.simps(1) split_ws_word split_ws_space1 split_ws_space2

declare split_ws.simps [simp del]

lemma split_ws_no_space: "\<forall>c \<in> set s. \<not> is_space c \<Longrightarrow> split_ws s = [s]"
  by (induction s) (simp_all add: split_ws_eqs)

lemma split_ws_last: "s \<noteq> [] \<Longrightarrow> \<not> is_space (last s) \<Longrightarrow> last (split_ws s) \<noteq> []"
proof (induction s)
  case Nil
  then show ?case by simp
next
  case (Cons c cs)
  show ?case
  proof (cases cs)
    case Nil
    with Cons.prems show ?thesis by (simp add: split_ws_eqs)
  next
    case (Cons d ds)
    with Cons.prems Cons.IH have l: "last (split_ws cs) \<noteq> []" by simp
    show ?thesis
    proof (cases "is_space c")
      case True
      with Cons split_ws_space_cons [of c cs] l show ?thesis
        by (auto simp: split_ws_nonempty)
    next
      case False
      from split_ws_nonempty [of cs] obtain p ps where s: "split_ws cs = p # ps"
        by (cases "split_ws cs") auto
      with False l show ?thesis by (cases ps) (simp_all add: split_ws_eqs)
    qed
  qed
qed

lemma split_ws_space: "\<exists>c \<in> set s. is_space c \<Longrightarrow> 2 \<le> length (split_ws s)"
proof (induction s)
  case Nil
  then show ?case by simp
next
  case (Cons c cs)
  show ?case
  proof (cases "is_space c")
    case True
    show ?thesis
    proof (cases cs)
      case Nil
      with True show ?thesis by (simp add: split_ws_eqs)
    next
      case (Cons d ds)
      show ?thesis
      proof (cases "is_space d")
        case True
        with Cons Cons.IH have "2 \<le> length (split_ws cs)" by simp
        with True \<open>is_space c\<close> Cons show ?thesis by (simp add: split_ws_eqs)
      next
        case False
        from split_ws_nonempty [of cs] have "1 \<le> length (split_ws cs)"
          by (cases "split_ws cs") auto
        with False \<open>is_space c\<close> Cons show ?thesis by (simp add: split_ws_eqs)
      qed
    qed
  next
    case False
    with Cons have "2 \<le> length (split_ws cs)" by auto
    with False show ?thesis by (simp add: split_ws_eqs)
  qed
qed

lemma words_of_trimmed:
  assumes q: "q \<noteq> []" and h: "\<not> is_space (hd q)" and l: "\<not> is_space (last q)"
    and w: "length (filter (\<lambda>word. 0 < length word) (split_ws q)) \<le> 1"
  shows "filter (\<lambda>word. 0 < length word) (split_ws q) = [q]"
proof (cases "\<exists>c \<in> set q. is_space c")
  case False
  then have "split_ws q = [q]" by (simp add: split_ws_no_space)
  with q show ?thesis by simp
next
  case True
  from q obtain c cs where qc: "q = c # cs" by (cases q) auto
  from split_ws_nonempty [of cs] obtain p ps where s: "split_ws cs = p # ps"
    by (cases "split_ws cs") auto
  from h qc s have sq: "split_ws q = (c # p) # ps" by (simp add: split_ws_eqs)
  from split_ws_space [OF True] sq have ps: "ps \<noteq> []" by auto
  from split_ws_last [OF q l] sq ps have "last ps \<noteq> []" by simp
  moreover from ps have "last ps \<in> set ps" by simp
  ultimately have "filter (\<lambda>word. 0 < length word) ps \<noteq> []"
    by (auto simp: filter_empty_conv)
  then have "1 \<le> length (filter (\<lambda>word. 0 < length word) ps)"
    by (cases "filter (\<lambda>word. 0 < length word) ps") simp_all
  with sq w show ?thesis by simp
qed

subsection \<open>Searching\<close>

lemma filter_exn_total:
  "\<forall>x \<in> set xs. f x = Inr (g x) \<Longrightarrow> filter_exn f xs = Inr (filter g xs)"
  by (induction xs) simp_all

lemma is_task_completed:
  "is_task t \<Longrightarrow> \<exists>b. read_field t ''isCompleted'' = JBool b"
  by (cases t) (auto simp: is_task_def typeof_boolean)

lemma with_prop_task: "is_task t \<Longrightarrow> with_prop t k f = f (read_field t k)"
  by (simp add: with_prop_def get_prop_task)

lemma task_filter_status:
  assumes "is_task t"
  shows "task_filter P c p q ws t =
     (if \<not> status_ok c p t then Inr False
      else if q = [] then Inr True
      else if 1 < length ws
      then (case searchText t of
              Inl e \<Rightarrow> Inl e
            | Inr text \<Rightarrow> Inr (list_all (\<lambda>word. str_includes text word) ws))
      else single_word_match P q t)"
proof -
  from is_task_completed [OF assms] obtain b where b: "read_field t ''isCompleted'' = JBool b"
    by blast
  show ?thesis
    by (cases c; cases p; cases b)
       (simp_all add: task_filter_def with_prop_task [OF assms] b truthy_def status_ok_def
         completed_def)
qed


lemma search_miss_none:
  "search_miss now s key \<Longrightarrow>
     (case searchCache s key of
        None \<Rightarrow> None
      | Some (result, ts) \<Rightarrow> if now - ts < 30000 then Some result else None) = None"
  by (auto simp: search_miss_def split: option.splits)


lemma searchTasks_kept:
  assumes m: "search_miss now s (cache_key q c p)" and g: "getTasks P now s = (Inr r, s1)"
    and k: "filter_exn (task_filter P c p (trim (toLowerCase q))
               (filter (\<lambda>word. 0 < length word) (split_ws (trim (toLowerCase q)))))
             (heap s1 r) = Inr kept"
    and n: "\<not> (trim q = [] \<and> c \<and> p)"
  shows "\<exists>res s'. searchTasks P now q c p s = (Inr res, s') \<and> heap s' res = kept"
proof -
  have "searchTasks P now q c p s =
          (Inr (fresh s1),
           (snd (alloc kept s1))\<lparr>searchCache :=
              (searchCache (snd (alloc kept s1)))(cache_key q c p \<mapsto> (fresh s1, now))\<rparr>)"
    unfolding searchTasks_def Let_def search_miss_none [OF m]
    using g k n by (auto simp: alloc_def)
  then show ?thesis by (simp add: alloc_def)
qed


lemma s_warm_miss: "search_miss now s_warm key"
  by (simp add: search_miss_def s_warm_def)








lemma full_task_str:
  assumes "full_task t"
    and "k \<in> set [''id'', ''title'', ''createdAt'', ''updatedAt'', ''dateAdded'', ''dayAdded'',
                    ''description'', ''name'', ''role'']"
  shows "read_field t k = JStr (str_of t k)"
proof -
  from assms have "typeof (read_field t k) = ''string''"
    by (cases t) (auto simp: full_task_def is_task_def)
  then show ?thesis
    by (auto simp: typeof_string str_of_def text_or_empty_def)
qed

lemma full_task_is_task: "full_task t \<Longrightarrow> is_task t"
  by (simp add: full_task_def)

lemma str_includes_empty: "q \<noteq> [] \<Longrightarrow> \<not> str_includes [] q"
  by (simp add: str_includes_def)

lemma searchText_full:
  assumes "full_task t"
  shows "searchText t = Inr (haystack t)"
proof -
  note t = full_task_is_task [OF assms]
  have "\<forall>k \<in> set [''title'', ''description'', ''name'', ''role'', ''dateAdded'', ''dayAdded''].
          with_prop t k (\<lambda>v. Inr (to_string v)) = Inr (str_of t k)"
    using full_task_str [OF assms] by (simp add: with_prop_task [OF t])
  then have "map_exn (\<lambda>k. with_prop t k (\<lambda>v. Inr (to_string v)))
               [''title'', ''description'', ''name'', ''role'', ''dateAdded'', ''dayAdded''] =
             Inr (map (str_of t)
               [''title'', ''description'', ''name'', ''role'', ''dateAdded'', ''dayAdded''])"
    by (rule map_exn_total)
  then show ?thesis
    by (simp add: searchText_def haystack_def)
qed

lemma or_else_Inr: "or_else (Inr a) (Inr b) = Inr (a \<or> b)"
  by (simp add: or_else_def)

lemma single_word_full:
  assumes f: "full_task t" and q: "q \<noteq> []"
  shows "single_word_match P q t = Inr (word_in_fields P q t)"
proof -
  note t = full_task_is_task [OF f]
  have g: "guarded_lower_includes q (JStr x) = Inr (str_includes (toLowerCase x) q)" for x
    using str_includes_empty [OF q]
    by (simp add: guarded_lower_includes_def lower_includes_def truthy_def toLowerCase_def)
  have l: "lower_includes q (JStr x) = Inr (str_includes (toLowerCase x) q)" for x
    by (simp add: lower_includes_def)
  have c: "call_includes q (JStr x) = Inr (str_includes x q)" for x
    by (simp add: call_includes_def)
  show ?thesis
    by (simp add: single_word_match_def with_prop_task [OF t] full_task_str [OF f] g l c
        or_else_Inr word_in_fields_def matchesDateSearch_def)
qed

lemma task_filter_full:
  assumes f: "full_task t" and q: "q \<noteq> []"
  shows "task_filter P c p q ws t =
           Inr (status_ok c p t \<and>
                (if 1 < length ws then list_all (\<lambda>w. str_includes (haystack t) w) ws
                 else word_in_fields P q t))"
  using q by (simp add: task_filter_status [OF full_task_is_task [OF f]] searchText_full [OF f]
      single_word_full [OF f q])

lemma words_of_single:
  assumes "trim searchQuery \<noteq> []" and "\<not> 1 < length (words_of searchQuery)"
  shows "words_of searchQuery = [trim (toLowerCase searchQuery)]"
proof -
  let ?q = "trim (toLowerCase searchQuery)"
  from assms(1) have q: "?q \<noteq> []" by (simp add: trim_lower_empty)
  from trim_ends [OF q] have e: "\<not> is_space (hd ?q)" "\<not> is_space (last ?q)" by simp_all
  from assms(2) have "length (filter (\<lambda>word. 0 < length word) (split_ws ?q)) \<le> 1"
    by (simp add: words_of_def)
  from words_of_trimmed [OF q e this] show ?thesis by (simp add: words_of_def)
qed

lemma searchTasks_query_filter:
  assumes m: "search_miss now s (cache_key searchQuery showCompleted showPending)"
    and g: "getTasks P now s = (Inr r, s1)"
    and tasks: "\<forall>t \<in> set (heap s1 r). full_task t"
    and nb: "trim searchQuery \<noteq> []"
  shows "\<exists>res s'. searchTasks P now searchQuery showCompleted showPending s = (Inr res, s') \<and>
           heap s' res = filter (\<lambda>t. status_ok showCompleted showPending t \<and>
                                      spec_match P searchQuery t) (heap s1 r)"
proof -
  let ?q = "trim (toLowerCase searchQuery)"
  let ?ws = "filter (\<lambda>word. 0 < length word) (split_ws ?q)"
  from nb have q: "?q \<noteq> []" by (simp add: trim_lower_empty)
  have ws: "filter (\<lambda>word. word \<noteq> []) (split_ws ?q) = words_of searchQuery"
    by (simp add: words_of_def)
  have sm: "(if 1 < length ?ws then list_all (\<lambda>w. str_includes (haystack t) w) ?ws
             else word_in_fields P ?q t) = spec_match P searchQuery t" for t
  proof (cases "1 < length (words_of searchQuery)")
    case True
    then show ?thesis by (simp add: spec_match_def ws)
  next
    case False
    from words_of_single [OF nb False] False show ?thesis
      by (simp add: spec_match_def ws)
  qed
  have "\<forall>t \<in> set (heap s1 r). task_filter P showCompleted showPending ?q ?ws t =
          Inr (status_ok showCompleted showPending t \<and> spec_match P searchQuery t)"
  proof
    fix t assume "t \<in> set (heap s1 r)"
    with tasks have f: "full_task t" by simp
    from task_filter_full [OF f q, of P showCompleted showPending ?ws] sm [of t]
    show "task_filter P showCompleted showPending ?q ?ws t =
          Inr (status_ok showCompleted showPending t \<and> spec_match P searchQuery t)"
      by simp
  qed
  then have k: "filter_exn (task_filter P showCompleted showPending ?q ?ws) (heap s1 r) =
      Inr (filter (\<lambda>t. status_ok showCompleted showPending t \<and> spec_match P searchQuery t)
             (heap s1 r))"
    by (rule filter_exn_total)
  from nb have "\<not> (trim searchQuery = [] \<and> showCompleted \<and> showPending)" by simp
  from searchTasks_kept [OF m g k this] show ?thesis .
qed

text \<open>
  C2, as amended.  On a call that finds no fresh cached result, with a collection of tasks
  whose fields are all strings and a non-blank query, \<^verbatim>\<open>searchTasks\<close> returns exactly the
  status-eligible tasks that match: with more than one word, every word occurs in the
  lowercased text of \<^verbatim>\<open>title\<close>, \<^verbatim>\<open>description\<close>, \<^verbatim>\<open>name\<close>, \<^verbatim>\<open>role\<close>, \<^verbatim>\<open>dateAdded\<close> and
  \<^verbatim>\<open>dayAdded\<close> joined by single spaces; with one word, the word occurs in the lowercased
  \<^verbatim>\<open>title\<close>, \<^verbatim>\<open>name\<close>, \<^verbatim>\<open>role\<close>, \<^verbatim>\<open>dayAdded\<close> or \<^verbatim>\<open>description\<close>, in \<^verbatim>\<open>dateAdded\<close> as it is, or
  in the local calendar date of \<^verbatim>\<open>createdAt\<close>.
\<close>

theorem searchTasks_query_match:
  assumes m: "search_miss now s (cache_key searchQuery showCompleted showPending)"
    and g: "getTasks P now s = (Inr r, s1)"
    and tasks: "\<forall>t \<in> set (heap s1 r). full_task t"
    and nb: "trim searchQuery \<noteq> []"
  shows "\<exists>res s'. searchTasks P now searchQuery showCompleted showPending s = (Inr res, s') \<and>
           heap s' res = filter (\<lambda>t. status_ok showCompleted showPending t \<and>
                                      spec_match P searchQuery t) (heap s1 r)"
  using assms by (rule searchTasks_query_filter)

subsection \<open>Searching the example data\<close>

lemma demo_full: "full_task task_a" "full_task task_b" "full_task task_c"
  by (simp_all add: full_task_def is_task_def task_a_def task_b_def task_c_def read_field_def
      get_prop_def typeof_def)

lemma demo_john: "spec_match P_demo ''John'' task_a" "\<not> spec_match P_demo ''John'' task_b"
  by code_simp+

lemma demo_team: "\<not> spec_match P_demo ''team  SARAH'' task_a" "spec_match P_demo ''team  SARAH'' task_b"
  by code_simp+

lemma demo_fix: "\<not> spec_match P_demo ''fix nbug'' task_c" "spec_match_concat P_demo ''fix nbug'' task_c"
  by code_simp+

lemma demo_status: "status_ok True True t"
  by (simp add: status_ok_def)

lemma s_warm_full: "\<forall>t \<in> set (heap s_warm 0). full_task t"
  by (simp add: s_warm_heap demo_full)

lemma trim_word: "trim ''John'' \<noteq> []" "trim ''team  SARAH'' \<noteq> []" "trim ''fix nbug'' \<noteq> []"
  by (simp_all add: trim_def is_space_def)

theorem searchTasks_query_match_witness:
  "(\<exists>res s'. searchTasks P_demo 1705312400000 ''John'' True True s_warm = (Inr res, s') \<and>
       heap s' res = [task_a]) \<and>
   (\<exists>res s'. searchTasks P_demo 1705312400000 ''team  SARAH'' True True s_warm = (Inr res, s') \<and>
       heap s' res = [task_b])"
proof -
  from searchTasks_query_match [OF s_warm_miss s_warm_read s_warm_full trim_word(1), of True True]
  have 1: "\<exists>res s'. searchTasks P_demo 1705312400000 ''John'' True True s_warm = (Inr res, s') \<and>
       heap s' res = [task_a]"
    by (simp add: s_warm_heap demo_status demo_john)
  from searchTasks_query_match [OF s_warm_miss s_warm_read s_warm_full trim_word(2), of True True]
  have 2: "\<exists>res s'. searchTasks P_demo 1705312400000 ''team  SARAH'' True True s_warm =
       (Inr res, s') \<and> heap s' res = [task_b]"
    by (simp add: s_warm_heap demo_status demo_team)
  from 1 2 show ?thesis by blast
qed

lemma s_fix_read: "getTasks P_demo 1705312400000 s_fix = (Inr 0, s_fix)"
proof -
  have "memo_hit 1705312400000 s_fix"
    by (simp add: memo_hit_def s_fix_def s_warm_def CACHE_EXPIRY_def)
  then show ?thesis
    by (simp add: getTasks_unfold) (simp add: s_fix_def s_warm_def)
qed

lemma s_fix_heap: "heap s_fix 0 = [task_c]"
  by (simp add: s_fix_def)

lemma s_fix_miss: "search_miss now s_fix key"
  by (simp add: search_miss_def s_fix_def s_warm_def)

theorem words_across_fields_counterexample:
  "returned (getTasks P_demo 1705312400000 s_fix) = [task_c] \<and>
   filter (\<lambda>t. status_ok True True t \<and> spec_match_concat P_demo ''fix nbug'' t) [task_c] =
     [task_c] \<and>
   returned (searchTasks P_demo 1705312400000 ''fix nbug'' True True s_fix) = []"
proof -
  have f: "\<forall>t \<in> set (heap s_fix 0). full_task t"
    by (simp add: s_fix_heap demo_full)
  from searchTasks_query_filter [OF s_fix_miss s_fix_read f trim_word(3), of True True]
  have "returned (searchTasks P_demo 1705312400000 ''fix nbug'' True True s_fix) = []"
    by (auto simp: returned_def s_fix_heap demo_fix)
  then show ?thesis
    by (simp add: s_fix_read returned_def s_fix_heap demo_status demo_fix)
qed

subsection \<open>The checksum of the secondary cache\<close>




















end
